theory Spec2Isabelle
  imports Complex_Main "HOL-Library.Word"
begin

unbundle bit_operations_syntax

section \<open>C strings and the C library functions used by BN220.c\<close>

text \<open>
  A C string is modelled by the list of its bytes before the terminating NUL, so a value of
  type \<open>string\<close> that stands for a C string holds no NUL byte, and \<open>strlen\<close> is \<open>length\<close>.
  Memory that is written through (the caller's receive buffer, the ten bytes of
  \<open>lastMeasure\<close>) is a byte list that may hold NUL anywhere; \<open>cstr\<close> reads the C string
  that starts at its first byte.
\<close>

definition NUL :: char where
  "NUL = CHR 0x00"

definition cstr :: "char list \<Rightarrow> string" where
  "cstr m = takeWhile (\<lambda>c. c \<noteq> NUL) m"

text \<open>\<open>strchr s c\<close>: the offset of the first \<open>c\<close> in \<open>s\<close>, \<open>None\<close> for the null pointer.\<close>

fun strchr :: "string \<Rightarrow> char \<Rightarrow> nat option" where
  "strchr [] c = None"
| "strchr (x # xs) c = (if x = c then Some 0 else map_option Suc (strchr xs c))"

text \<open>\<open>isspace\<close> in the C locale.\<close>

definition isspace :: "char \<Rightarrow> bool" where
  "isspace c \<longleftrightarrow> c = CHR '' '' \<or> c = CHR 0x09 \<or> c = CHR 0x0A \<or> c = CHR 0x0B
     \<or> c = CHR 0x0C \<or> c = CHR 0x0D"

text \<open>The value of a character as a digit: \<open>0-9\<close>, then \<open>a-z\<close> and \<open>A-Z\<close> from ten on.\<close>

definition digit_val :: "char \<Rightarrow> nat option" where
  "digit_val c =
     (let n = (of_char c :: nat)
      in if 48 \<le> n \<and> n \<le> 57 then Some (n - 48)
         else if 97 \<le> n \<and> n \<le> 122 then Some (n - 87)
         else if 65 \<le> n \<and> n \<le> 90 then Some (n - 55)
         else None)"

definition digit_in :: "nat \<Rightarrow> char \<Rightarrow> nat option" where
  "digit_in base c =
     (case digit_val c of None \<Rightarrow> None | Some d \<Rightarrow> if d < base then Some d else None)"

text \<open>The longest run of digits of the base at the front of the string, as a number.\<close>

fun digits_value :: "nat \<Rightarrow> string \<Rightarrow> nat \<Rightarrow> nat" where
  "digits_value base [] acc = acc"
| "digits_value base (c # cs) acc =
     (case digit_in base c of None \<Rightarrow> acc | Some d \<Rightarrow> digits_value base cs (acc * base + d))"

text \<open>
  \<open>long\<close> has 32 bits on the target (BN220.h includes the STM32H5 headers), and \<open>strtol\<close>
  saturates at its bounds.
\<close>

definition LONG_MAX :: int where
  "LONG_MAX = 2 ^ 31 - 1"

definition LONG_MIN :: int where
  "LONG_MIN = - (2 ^ 31)"

definition sign_prefix :: "string \<Rightarrow> bool \<times> string" where
  "sign_prefix s =
     (case s of [] \<Rightarrow> (False, [])
      | c # r \<Rightarrow> if c = CHR ''-'' then (True, r) else if c = CHR ''+'' then (False, r)
                 else (False, s))"

definition hex_prefix :: "string \<Rightarrow> bool" where
  "hex_prefix s =
     (case s of c0 # cx # h # _ \<Rightarrow>
          c0 = CHR ''0'' \<and> (cx = CHR ''x'' \<or> cx = CHR ''X'') \<and> digit_in 16 h \<noteq> None
      | _ \<Rightarrow> False)"

text \<open>
  \<open>strtol nptr NULL base\<close> for base 10 and 16 (C99 7.20.1.4): white space is skipped, a sign
  is optional, base 16 allows \<open>0x\<close> before a hexadecimal digit, the longest run of digits
  is converted, and no digit at all gives 0.
\<close>

definition strtol :: "string \<Rightarrow> nat \<Rightarrow> int" where
  "strtol nptr base =
     (let (neg, s) = sign_prefix (dropWhile isspace nptr);
          s' = (if base = 16 \<and> hex_prefix s then drop 2 s else s);
          n = int (digits_value base s' 0);
          v = (if neg then - n else n)
      in if v > LONG_MAX then LONG_MAX else if v < LONG_MIN then LONG_MIN else v)"

section \<open>Checksum verifier\<close>

type_synonym byte = "8 word"

definition byte_of :: "char \<Rightarrow> byte" where
  "byte_of c = of_nat (of_char c)"

text \<open>The loop \<open>for (p = gps_sentence; p < star; ++p) calc_cs ^= *p\<close> over the bytes before \<open>star\<close>.\<close>

fun xor_loop :: "string \<Rightarrow> byte \<Rightarrow> byte" where
  "xor_loop [] calc_cs = calc_cs"
| "xor_loop (p # ps) calc_cs = xor_loop ps (calc_cs XOR byte_of p)"

text \<open>
  \<open>getChecksum\<close>; its argument is a string, so the test for the null pointer has no
  counterpart here.
\<close>

definition getChecksum :: "string \<Rightarrow> int" where
  "getChecksum gps_sentence =
     (if length gps_sentence < 5 then 0
      else case strchr gps_sentence (CHR ''*'') of
        None \<Rightarrow> 0
      | Some star \<Rightarrow>
          if length gps_sentence - star < 3 then 0
          else let calc_cs = xor_loop (take star gps_sentence) 0;
                   cs_str = [gps_sentence ! (star + 1), gps_sentence ! (star + 2)];
                   nmea_cs = strtol cs_str 16
               in if uint calc_cs = nmea_cs then 1 else 0)"



section \<open>Floating-point values\<close>

text \<open>
  \<open>float\<close> and \<open>double\<close> are IEEE 754 binary32 and binary64, every operation rounds to
  nearest, ties to even, and an expression is evaluated in the format of its type
  (\<open>FLT_EVAL_METHOD\<close> 0, as on the Cortex-M target). A value is its exact rational number,
  an infinity or a NaN. The two zeros are one value: no comparison of BN220.c tells them
  apart, and a zero that a decoder computes and stores comes from an exact cancellation,
  which gives the positive one. A NaN has neither sign nor payload.
\<close>

datatype fp = Finite rat | PosInf | NegInf | NaN

definition pow2 :: "int \<Rightarrow> rat" where
  "pow2 e = (if 0 \<le> e then 2 ^ nat e else 1 / 2 ^ nat (- e))"

fun bit_length :: "nat \<Rightarrow> nat" where
  "bit_length n = (if n = 0 then 0 else Suc (bit_length (n div 2)))"

declare bit_length.simps [simp del]

text \<open>
  \<open>ilog2 x\<close> is the exponent \<open>e\<close> with \<open>2 ^ e \<le> x < 2 ^ (e + 1)\<close>, for \<open>x > 0\<close>: from the
  bits of the integer part when \<open>x \<ge> 1\<close>, and from those of the reciprocal otherwise.
\<close>

definition ilog2 :: "rat \<Rightarrow> int" where
  "ilog2 x =
     (if 1 \<le> x then int (bit_length (nat \<lfloor>x\<rfloor>)) - 1
      else - int (bit_length (nat (\<lceil>1 / x\<rceil> - 1))))"

definition round_half_even :: "rat \<Rightarrow> int" where
  "round_half_even y =
     (let f = \<lfloor>y\<rfloor>; r = y - of_int f
      in if r < 1 / 2 then f else if 1 / 2 < r then f + 1 else if even f then f else f + 1)"

text \<open>
  Rounding a rational to the format with \<open>p\<close> bits of precision and exponents from \<open>emin\<close>
  to \<open>emax\<close>: the unit in the last place comes from the exponent of the value, not below
  \<open>emin\<close> (subnormal numbers), and a result beyond the largest number is an infinity.
\<close>

definition round_fp :: "nat \<Rightarrow> int \<Rightarrow> int \<Rightarrow> rat \<Rightarrow> fp" where
  "round_fp p emin emax x =
     (if x = 0 then Finite 0
      else let e = max (ilog2 \<bar>x\<bar>) emin;
               ulp = pow2 (e - int p + 1);
               y = of_int (round_half_even (x / ulp)) * ulp
           in if pow2 (emax + 1) \<le> y then PosInf
              else if y \<le> - pow2 (emax + 1) then NegInf
              else Finite y)"

definition round32 :: "rat \<Rightarrow> fp" where
  "round32 = round_fp 24 (- 126) 127"

definition round64 :: "rat \<Rightarrow> fp" where
  "round64 = round_fp 53 (- 1022) 1023"

text \<open>Addition and division in a format given by its rounding function.\<close>

fun fp_add :: "(rat \<Rightarrow> fp) \<Rightarrow> fp \<Rightarrow> fp \<Rightarrow> fp" where
  "fp_add rnd (Finite a) (Finite b) = rnd (a + b)"
| "fp_add rnd NaN _ = NaN"
| "fp_add rnd _ NaN = NaN"
| "fp_add rnd PosInf NegInf = NaN"
| "fp_add rnd NegInf PosInf = NaN"
| "fp_add rnd PosInf _ = PosInf"
| "fp_add rnd NegInf _ = NegInf"
| "fp_add rnd _ PosInf = PosInf"
| "fp_add rnd _ NegInf = NegInf"

text \<open>
  Division; the divisor of every division in BN220.c is the constant 60, and a zero
  divisor is taken as positive.
\<close>

fun fp_div :: "(rat \<Rightarrow> fp) \<Rightarrow> fp \<Rightarrow> fp \<Rightarrow> fp" where
  "fp_div rnd (Finite a) (Finite b) =
     (if b = 0 then (if a = 0 then NaN else if 0 < a then PosInf else NegInf)
      else rnd (a / b))"
| "fp_div rnd (Finite a) PosInf = Finite 0"
| "fp_div rnd (Finite a) NegInf = Finite 0"
| "fp_div rnd PosInf (Finite b) = (if 0 \<le> b then PosInf else NegInf)"
| "fp_div rnd NegInf (Finite b) = (if 0 \<le> b then NegInf else PosInf)"
| "fp_div rnd PosInf PosInf = NaN"
| "fp_div rnd PosInf NegInf = NaN"
| "fp_div rnd NegInf PosInf = NaN"
| "fp_div rnd NegInf NegInf = NaN"
| "fp_div rnd NaN b = NaN"
| "fp_div rnd (Finite a) NaN = NaN"
| "fp_div rnd PosInf NaN = NaN"
| "fp_div rnd NegInf NaN = NaN"

fun fp_neg :: "fp \<Rightarrow> fp" where
  "fp_neg (Finite a) = Finite (- a)"
| "fp_neg PosInf = NegInf"
| "fp_neg NegInf = PosInf"
| "fp_neg NaN = NaN"

text \<open>The comparisons \<open><=\<close> and \<open>>=\<close>: false whenever an operand is a NaN.\<close>

fun fp_le :: "fp \<Rightarrow> fp \<Rightarrow> bool" where
  "fp_le NaN _ = False"
| "fp_le _ NaN = False"
| "fp_le (Finite a) (Finite b) = (a \<le> b)"
| "fp_le NegInf _ = True"
| "fp_le _ PosInf = True"
| "fp_le _ _ = False"

definition fp_ge :: "fp \<Rightarrow> fp \<Rightarrow> bool" where
  "fp_ge a b = fp_le b a"

text \<open>\<open>x == 0.0f\<close>, and the truth value of \<open>x\<close> as the first operand of \<open>?:\<close>.\<close>

definition fp_is_zero :: "fp \<Rightarrow> bool" where
  "fp_is_zero x \<longleftrightarrow> x = Finite 0"

text \<open>Conversions of an \<open>int\<close> to \<open>float\<close> and to \<open>double\<close>.\<close>

definition int_to_float :: "int \<Rightarrow> fp" where
  "int_to_float i = round32 (of_int i)"

definition int_to_double :: "int \<Rightarrow> fp" where
  "int_to_double i = round64 (of_int i)"

section \<open>\<open>strtof\<close>\<close>

definition isdigit :: "char \<Rightarrow> bool" where
  "isdigit c \<longleftrightarrow> digit_in 10 c \<noteq> None"

definition isxdigit :: "char \<Rightarrow> bool" where
  "isxdigit c \<longleftrightarrow> digit_in 16 c \<noteq> None"

definition tolower :: "char \<Rightarrow> char" where
  "tolower c = (let n = (of_char c :: nat) in if 65 \<le> n \<and> n \<le> 90 then char_of (n + 32) else c)"

definition starts_with_nocase :: "string \<Rightarrow> string \<Rightarrow> bool" where
  "starts_with_nocase word s \<longleftrightarrow> map tolower (take (length word) s) = word"

definition ipow :: "rat \<Rightarrow> int \<Rightarrow> rat" where
  "ipow b e = (if 0 \<le> e then b ^ nat e else 1 / b ^ nat (- e))"

text \<open>
  The exponent part: the marker (\<open>e\<close> or \<open>p\<close>, in either case), an optional sign and at
  least one decimal digit; anything else is no exponent part.
\<close>

definition exponent_part :: "char \<Rightarrow> string \<Rightarrow> int" where
  "exponent_part mark s =
     (case s of [] \<Rightarrow> 0
      | c # t \<Rightarrow>
          if tolower c = mark then
            (let (neg, t') = sign_prefix t;
                 ds = takeWhile isdigit t';
                 n = int (digits_value 10 ds 0)
             in if ds = [] then 0 else if neg then - n else n)
          else 0)"

text \<open>The digits after a radix point, and what follows them.\<close>

definition fraction_digits :: "(char \<Rightarrow> bool) \<Rightarrow> string \<Rightarrow> string \<times> string" where
  "fraction_digits isdig s =
     (case s of [] \<Rightarrow> ([], [])
      | c # t \<Rightarrow> if c = CHR ''.'' then (takeWhile isdig t, dropWhile isdig t) else ([], s))"

definition decimal_value :: "string \<Rightarrow> rat option" where
  "decimal_value s =
     (let ip = takeWhile isdigit s;
          (fp, rest) = fraction_digits isdigit (dropWhile isdigit s)
      in if ip = [] \<and> fp = [] then None
         else Some (of_nat (digits_value 10 (ip @ fp) 0)
                    * ipow 10 (exponent_part (CHR ''e'') rest - int (length fp))))"

definition hex_value :: "string \<Rightarrow> rat option" where
  "hex_value s =
     (case s of
        c0 # cx # t \<Rightarrow>
          if c0 = CHR ''0'' \<and> tolower cx = CHR ''x'' then
            (let ip = takeWhile isxdigit t;
                 (fp, rest) = fraction_digits isxdigit (dropWhile isxdigit t)
             in if ip = [] \<and> fp = [] then None
                else Some (of_nat (digits_value 16 (ip @ fp) 0)
                           * ipow 2 (exponent_part (CHR ''p'') rest - 4 * int (length fp))))
          else None
      | _ \<Rightarrow> None)"

text \<open>
  \<open>strtof nptr NULL\<close> (C99 7.20.1.3): white space is skipped, a sign is optional, then
  comes \<open>inf\<close> or \<open>nan\<close> in any case, a hexadecimal number after \<open>0x\<close>, or a decimal
  number; the number is rounded to \<open>float\<close>, and a string with no number gives zero.
\<close>

definition strtof :: "string \<Rightarrow> fp" where
  "strtof nptr =
     (let (neg, s) = sign_prefix (dropWhile isspace nptr)
      in if starts_with_nocase ''inf'' s then (if neg then NegInf else PosInf)
         else if starts_with_nocase ''nan'' s then NaN
         else case hex_value s of
                Some v \<Rightarrow> round32 (if neg then - v else v)
              | None \<Rightarrow>
                  (case decimal_value s of
                     Some v \<Rightarrow> round32 (if neg then - v else v)
                   | None \<Rightarrow> Finite 0))"

section \<open>Field tokenizer\<close>

text \<open>
  \<open>strsep(&p, ",")\<close> on the private copy of the sentence: the pointer \<open>p\<close> is \<open>None\<close> when
  it is null, else the string it points to; the result is the token and the new \<open>p\<close>.
\<close>

definition strsep :: "string option \<Rightarrow> char \<Rightarrow> string option \<times> string option" where
  "strsep p d =
     (case p of None \<Rightarrow> (None, None)
      | Some s \<Rightarrow>
          (case strchr s d of None \<Rightarrow> (Some s, None)
           | Some i \<Rightarrow> (Some (take i s), Some (drop (Suc i) s))))"

text \<open>
  The loop \<open>while ((token = strsep(&p, ",")) != NULL && cnt < 25)\<close>, which copies each
  token into \<open>val[cnt]\<close>; \<open>cnt\<close> is the length of \<open>val\<close>. Allocation is taken to succeed.
\<close>

function tokenize_loop :: "string option \<Rightarrow> string list \<Rightarrow> string list" where
  "tokenize_loop p val =
     (case strsep p (CHR '','') of
        (None, _) \<Rightarrow> val
      | (Some token, p') \<Rightarrow>
          if length val < 25 then tokenize_loop p' (val @ [token]) else val)"
  by pat_completeness auto
termination
proof (relation "measure (\<lambda>(p, val). case p of None \<Rightarrow> 0 | Some s \<Rightarrow> Suc (length s))")
  show "wf (measure (\<lambda>(p, val). case p of None \<Rightarrow> 0 | Some s \<Rightarrow> Suc (length s)))"
    by simp
next
  fix p :: "string option" and val :: "string list" and x1 x2 a
  assume "(x1, x2) = strsep p (CHR '','')" "x1 = Some a" "length val < 25"
  then have sep: "strsep p (CHR '','') = (Some a, x2)"
    by simp
  show "((x2, val @ [a]), (p, val))
         \<in> measure (\<lambda>(p, val). case p of None \<Rightarrow> 0 | Some s \<Rightarrow> Suc (length s))"
  proof (cases p)
    case None
    with sep show ?thesis by (simp add: strsep_def)
  next
    case (Some s)
    with sep show ?thesis
      by (cases s) (auto simp: strsep_def split: option.splits if_splits)
  qed
qed

declare tokenize_loop.simps [simp del]

definition tokenize :: "string \<Rightarrow> string list" where
  "tokenize nmea_sentence = tokenize_loop (Some nmea_sentence) []"

section \<open>The fix record\<close>

text \<open>
  \<open>BN220_GPS\<close> of BN220.h. The field \<open>fix\<close> is \<open>fix_flag\<close> here; \<open>lastMeasure\<close> is the
  array of ten bytes, and the time it holds is \<open>cstr (lastMeasure g)\<close>.
\<close>

record BN220_GPS =
  lat :: fp
  NS :: char
  lon :: fp
  EW :: char
  altitude :: fp
  hdop :: fp
  satelliteCount :: int
  fix_flag :: int
  lastMeasure :: "char list"

text \<open>
  Undefined behaviour is a value: a read beyond the allocation of a token, and a store
  beyond the fifteen elements of the global array \<open>data\<close>. Every \<open>malloc\<close> and \<open>strdup\<close>
  is taken to succeed, so the returns on a failed allocation have no branch.
\<close>

datatype fault = OutOfBoundsRead | OutOfBoundsWrite

text \<open>
  The source of \<open>memcpy(dst, s + off, n)\<close>, where \<open>s\<close> is a token in its allocation of
  \<open>strlen(s) + 1\<close> bytes: the \<open>n\<close> bytes when they all lie in the allocation.
\<close>

definition memcpy_src :: "string \<Rightarrow> nat \<Rightarrow> nat \<Rightarrow> char list option" where
  "memcpy_src s off n =
     (if off + n \<le> length s + 1 then Some (take n (drop off (s @ [NUL]))) else None)"

text \<open>\<open>s[0]\<close>: the first byte of a string, its terminator when the string is empty.\<close>

definition first_byte :: "string \<Rightarrow> char" where
  "first_byte s = (case s of [] \<Rightarrow> NUL | c # _ \<Rightarrow> c)"

text \<open>
  The two ways a decoder sets the time: nine bytes of the field and a terminator, or a
  terminator in the first byte.
\<close>

definition copy_time :: "string \<Rightarrow> char list" where
  "copy_time field = take 9 field @ [NUL]"

definition clear_time :: "char list \<Rightarrow> char list" where
  "clear_time lm = lm[0 := NUL]"

section \<open>Sentence decoders\<close>

definition nmea_GLL :: "BN220_GPS \<Rightarrow> string \<Rightarrow> fault + (int \<times> BN220_GPS)" where
  "nmea_GLL gps_data nmea_sentence =
     (let val = tokenize nmea_sentence; cnt = length val
      in if cnt < 5 then Inr (0, gps_data)
         else
           let lat_ind = first_byte (val ! 2)
           in if lat_ind = CHR ''N'' \<or> lat_ind = CHR ''S'' then
                (case (memcpy_src (val ! 1) 0 2, memcpy_src (val ! 1) 2 6,
                       memcpy_src (val ! 3) 0 3, memcpy_src (val ! 3) 3 7) of
                   (Some lat_d, Some lat_m, Some lon_d, Some lon_m) \<Rightarrow>
                     let lat_d_t = strtol (cstr lat_d) 10;
                         lat_m_t = strtof (cstr lat_m);
                         lat_deg = fp_add round64 (int_to_double lat_d_t)
                                     (fp_div round64 lat_m_t (Finite 60));
                         lon_ind = first_byte (val ! 4);
                         lon_d_t = strtol (cstr lon_d) 10;
                         lon_m_t = strtof (cstr lon_m);
                         lon_deg = fp_add round64 (int_to_double lon_d_t)
                                     (fp_div round64 lon_m_t (Finite 60))
                     in if lat_d_t = 0 \<or> fp_is_zero lat_m_t \<or> lon_d_t = 0 \<or> fp_is_zero lon_m_t
                        then Inr (0, gps_data)
                        else Inr (1, gps_data
                               \<lparr>lat := lat_deg, NS := lat_ind, lon := lon_deg, EW := lon_ind,
                                lastMeasure :=
                                  (if 5 < cnt \<and> 9 \<le> length (val ! 5) then copy_time (val ! 5)
                                   else clear_time (lastMeasure gps_data))\<rparr>)
                 | _ \<Rightarrow> Inl OutOfBoundsRead)
              else Inr (0, gps_data))"

text \<open>The loop \<open>for (i = 3; i < 15; i++) if (val[i][0] != 0) satelliteCount++\<close>.\<close>

fun count_used :: "string list \<Rightarrow> int \<Rightarrow> int" where
  "count_used [] count = count"
| "count_used (v # vs) count =
     count_used vs (if first_byte v \<noteq> NUL then count + 1 else count)"

definition nmea_GSA :: "BN220_GPS \<Rightarrow> string \<Rightarrow> fault + (int \<times> BN220_GPS)" where
  "nmea_GSA gps_data nmea_sentence =
     (let val = tokenize nmea_sentence; cnt = length val
      in if cnt < 15 then Inr (0, gps_data)
         else
           let fix = strtol (val ! 2) 10;
               count = count_used (take 12 (drop 3 val)) 0
           in Inr (1, gps_data\<lparr>satelliteCount := count,
                                fix_flag := (if 1 < fix then 1 else 0)\<rparr>))"

text \<open>
  \<open>nmea_GGA\<close> writes the time before it validates anything; \<open>g1\<close> is the record after
  that write, and every \<open>goto fail\<close> returns it.
\<close>

definition nmea_GGA :: "BN220_GPS \<Rightarrow> string \<Rightarrow> fault + (int \<times> BN220_GPS)" where
  "nmea_GGA gps_data nmea_sentence =
     (let val = tokenize nmea_sentence; cnt = length val
      in if cnt < 10 then Inr (0, gps_data)
         else
           let g1 = gps_data\<lparr>lastMeasure :=
                      (if 9 \<le> length (val ! 1) then copy_time (val ! 1)
                       else clear_time (lastMeasure gps_data))\<rparr>;
               lat_ind = first_byte (val ! 3)
           in if lat_ind \<noteq> CHR ''N'' \<and> lat_ind \<noteq> CHR ''S'' then Inr (0, g1)
              else
                (case (memcpy_src (val ! 2) 0 2, memcpy_src (val ! 2) 2 6) of
                   (Some lat_d, Some lat_m) \<Rightarrow>
                     let lat_deg_i = strtol (cstr lat_d) 10;
                         lat_deg_f = fp_div round32 (strtof (cstr lat_m)) (Finite 60);
                         lat' = fp_add round32 (int_to_float lat_deg_i) lat_deg_f
                     in if fp_le lat' (Finite 0) \<or> fp_ge lat' (Finite 90) then Inr (0, g1)
                        else
                          let lon_ind = first_byte (val ! 5)
                          in if lon_ind \<noteq> CHR ''E'' \<and> lon_ind \<noteq> CHR ''W'' then Inr (0, g1)
                             else
                               (case (memcpy_src (val ! 4) 0 3, memcpy_src (val ! 4) 3 7) of
                                  (Some lon_d, Some lon_m) \<Rightarrow>
                                    let lon_deg_i = strtol (cstr lon_d) 10;
                                        lon_deg_f = fp_div round32 (strtof (cstr lon_m)) (Finite 60);
                                        lon' = fp_add round32 (int_to_float lon_deg_i) lon_deg_f
                                    in if fp_le lon' (Finite 0) \<or> fp_ge lon' (Finite 180)
                                       then Inr (0, g1)
                                       else
                                         let h = strtof (val ! 8); a = strtof (val ! 9)
                                         in Inr (1, g1
                                              \<lparr>lat := (if lat_ind = CHR ''S'' then fp_neg lat' else lat'),
                                               lon := (if lon_ind = CHR ''W'' then fp_neg lon' else lon'),
                                               altitude := (if fp_is_zero a then altitude g1 else a),
                                               hdop := (if fp_is_zero h then hdop g1 else h),
                                               satelliteCount := strtol (val ! 7) 10,
                                               fix_flag := (if 0 < strtol (val ! 6) 10 then 1 else 0)\<rparr>)
                                | _ \<Rightarrow> Inl OutOfBoundsRead)
                 | _ \<Rightarrow> Inl OutOfBoundsRead))"

definition nmea_GSV :: "BN220_GPS \<Rightarrow> string \<Rightarrow> fault + (int \<times> BN220_GPS)" where
  "nmea_GSV gps_data nmea_sentence =
     (let val = tokenize nmea_sentence; cnt = length val
      in if cnt < 2 then Inr (0, gps_data) else Inr (1, gps_data))"

section \<open>Batch dispatcher\<close>

text \<open>\<open>strstr haystack needle\<close>: the rest of the haystack from the first match on.\<close>

fun strstr :: "string \<Rightarrow> string \<Rightarrow> string option" where
  "strstr [] needle = (if needle = [] then Some [] else None)"
| "strstr (h # hs) needle =
     (if take (length needle) (h # hs) = needle then Some (h # hs) else strstr hs needle)"

text \<open>
  The receive buffer is the list of the bytes before its last terminator: the byte at
  \<open>length mem\<close> is a NUL that is never written.
\<close>

definition byte_at :: "char list \<Rightarrow> nat \<Rightarrow> char" where
  "byte_at mem i = (if i < length mem then mem ! i else NUL)"

text \<open>
  \<open>strtok\<close> with the one delimiter \<open>d\<close>, from the saved position \<open>pos\<close>: the delimiters
  before the token are skipped and left alone, the delimiter that ends the token is
  overwritten with a NUL. The result is the token, the buffer and the position saved
  for the next call.
\<close>

definition strtok :: "char list \<Rightarrow> nat \<Rightarrow> char \<Rightarrow> string option \<times> char list \<times> nat" where
  "strtok mem pos d =
     (let s = pos + length (takeWhile (\<lambda>c. c = d) (drop pos mem))
      in if byte_at mem s = NUL then (None, mem, s)
         else
           let token = takeWhile (\<lambda>c. c \<noteq> d \<and> c \<noteq> NUL) (drop s mem);
               e = s + length token
           in if byte_at mem e = NUL then (Some token, mem, e)
              else (Some token, mem[e := NUL], e + 1))"

text \<open>
  The first loop of \<open>gpsParse\<close>: each token of the buffer is copied into \<open>data[cnt]\<close>,
  where \<open>cnt\<close> is the length of \<open>data\<close>; nothing checks \<open>cnt\<close> against the fifteen
  elements of the array. The result is \<open>data\<close> and the buffer as \<open>strtok\<close> leaves it.
\<close>

function split_loop :: "char list \<Rightarrow> nat \<Rightarrow> string list \<Rightarrow> fault + (string list \<times> char list)" where
  "split_loop mem pos data =
     (case strtok mem pos (CHR ''$'') of
        (None, mem', pos') \<Rightarrow> Inr (data, mem')
      | (Some sentence, mem', pos') \<Rightarrow>
          if length data < 15 then split_loop mem' pos' (data @ [sentence])
          else Inl OutOfBoundsWrite)"
  by pat_completeness auto
termination
proof (relation "measure (\<lambda>(mem, pos, data). Suc (length mem) - pos)")
  show "wf (measure (\<lambda>(mem, pos, data). Suc (length mem) - pos))"
    by simp
next
  fix mem :: "char list" and pos :: nat and data :: "string list" and x1 x2 sentence mem' pos'
  assume "(x1, x2) = strtok mem pos (CHR ''$'')" "x1 = Some sentence" "(mem', pos') = x2"
    "length data < 15"
  then have tok: "strtok mem pos (CHR ''$'') = (Some sentence, mem', pos')"
    by simp
  define s where "s = pos + length (takeWhile (\<lambda>c. c = CHR ''$'') (drop pos mem))"
  define n where "n = length (takeWhile (\<lambda>c. c \<noteq> CHR ''$'' \<and> c \<noteq> NUL) (drop s mem))"
  have ps: "pos \<le> s"
    by (simp add: s_def)
  from tok have nz: "byte_at mem s \<noteq> NUL"
    by (auto simp: strtok_def s_def Let_def split: if_splits)
  then have s_lt: "s < length mem"
    by (auto simp: byte_at_def split: if_splits)
  from tok nz have "(length mem' = length mem \<and> pos' = s + n \<and> byte_at mem (s + n) = NUL)
      \<or> (length mem' = length mem \<and> pos' = Suc (s + n))"
    by (auto simp: strtok_def s_def [symmetric] n_def [symmetric] Let_def split: if_splits)
  then have "length mem' = length mem \<and> s < pos'"
  proof
    assume a: "length mem' = length mem \<and> pos' = s + n \<and> byte_at mem (s + n) = NUL"
    with nz have "n \<noteq> 0"
      by (cases n) auto
    with a show ?thesis by simp
  next
    assume "length mem' = length mem \<and> pos' = Suc (s + n)"
    then show ?thesis by simp
  qed
  with ps s_lt have "Suc (length mem') - pos' < Suc (length mem) - pos"
    by auto
  then show "((mem', pos', data @ [sentence]), (mem, pos, data))
               \<in> measure (\<lambda>(mem, pos, data). Suc (length mem) - pos)"
    by simp
qed

declare split_loop.simps [simp del]

text \<open>
  The body of the second loop, for one candidate sentence: the decoder of the first type
  tag found is called, and what it returns is dropped.
\<close>

definition dispatch :: "BN220_GPS \<Rightarrow> string \<Rightarrow> fault + BN220_GPS" where
  "dispatch gps_data sentence =
     (if strstr sentence [CHR 0x0D, CHR 0x0A] \<noteq> None \<and> getChecksum sentence \<noteq> 0 then
        (if strstr sentence ''GLL'' \<noteq> None then map_sum id snd (nmea_GLL gps_data sentence)
         else if strstr sentence ''GSA'' \<noteq> None then map_sum id snd (nmea_GSA gps_data sentence)
         else if strstr sentence ''GGA'' \<noteq> None then map_sum id snd (nmea_GGA gps_data sentence)
         else if strstr sentence ''GSV'' \<noteq> None then map_sum id snd (nmea_GSV gps_data sentence)
         else Inr gps_data)
      else Inr gps_data)"

text \<open>The second loop, \<open>for (i = 0; i < cnt; i++)\<close>, from index \<open>i\<close> on.\<close>

function dispatch_from :: "string list \<Rightarrow> nat \<Rightarrow> nat \<Rightarrow> BN220_GPS \<Rightarrow> fault + BN220_GPS" where
  "dispatch_from data i cnt gps_data =
     (if i < cnt then
        (case dispatch gps_data (data ! i) of
           Inl f \<Rightarrow> Inl f
         | Inr gps_data' \<Rightarrow> dispatch_from data (i + 1) cnt gps_data')
      else Inr gps_data)"
  by pat_completeness auto
termination
  by (relation "measure (\<lambda>(data, i, cnt, gps_data). cnt - i)") auto

declare dispatch_from.simps [simp del]

text \<open>
  \<open>gpsParse\<close>: the record and the buffer go in, and come out as the call leaves them.
\<close>

definition gpsParse :: "BN220_GPS \<Rightarrow> char list \<Rightarrow> fault + (BN220_GPS \<times> char list)" where
  "gpsParse gps_data buffer =
     (case split_loop buffer 0 [] of
        Inl f \<Rightarrow> Inl f
      | Inr (data, buffer') \<Rightarrow>
          (case dispatch_from data 0 (length data) gps_data of
             Inl f \<Rightarrow> Inl f
           | Inr gps_data' \<Rightarrow> Inr (gps_data', buffer')))"

section \<open>Notions of the specification\<close>

text \<open>
  The candidate sentences of a buffer: the maximal runs of bytes other than \<open>$\<close> in the C
  string it holds, in their order; the delimiters belong to no candidate.
\<close>

function candidates_of :: "string \<Rightarrow> string list" where
  "candidates_of s =
     (case dropWhile (\<lambda>c. c = CHR ''$'') s of
        [] \<Rightarrow> []
      | c # r \<Rightarrow> (c # takeWhile (\<lambda>c. c \<noteq> CHR ''$'') r)
                 # candidates_of (dropWhile (\<lambda>c. c \<noteq> CHR ''$'') r))"
  by pat_completeness auto
termination
proof (relation "measure length")
  show "wf (measure length)"
    by simp
next
  fix s :: string and c r
  assume "dropWhile (\<lambda>c. c = CHR ''$'') s = c # r"
  then have "Suc (length r) \<le> length s"
    by (metis length_Cons length_dropWhile_le)
  moreover have "length (dropWhile (\<lambda>c. c \<noteq> CHR ''$'') r) \<le> length r"
    by (rule length_dropWhile_le)
  ultimately show "(dropWhile (\<lambda>c. c \<noteq> CHR ''$'') r, s) \<in> measure length"
    by simp
qed

declare candidates_of.simps [simp del]

definition candidates :: "char list \<Rightarrow> string list" where
  "candidates buffer = candidates_of (cstr buffer)"

text \<open>Handling the candidates one after the other, each from the record the last one left.\<close>

fun dispatch_seq :: "BN220_GPS \<Rightarrow> string list \<Rightarrow> fault + BN220_GPS" where
  "dispatch_seq g [] = Inr g"
| "dispatch_seq g (s # rest) =
     (case dispatch g s of Inl f \<Rightarrow> Inl f | Inr g' \<Rightarrow> dispatch_seq g' rest)"


text \<open>
  The degree value of a coordinate as each decoder computes it from the whole degrees
  and the minutes: \<open>lat_d_t + lat_m_t / 60.0\<close> in \<open>nmea_GLL\<close>, in \<open>double\<close>, and
  \<open>lat_deg_i + strtof(lat_m) / 60.0f\<close> in \<open>nmea_GGA\<close>, in \<open>float\<close>.
\<close>

definition gll_degrees :: "int \<Rightarrow> fp \<Rightarrow> fp" where
  "gll_degrees whole minutes =
     fp_add round64 (int_to_double whole) (fp_div round64 minutes (Finite 60))"

definition gga_degrees :: "int \<Rightarrow> fp \<Rightarrow> fp" where
  "gga_degrees whole minutes =
     fp_add round32 (int_to_float whole) (fp_div round32 minutes (Finite 60))"

text \<open>
  A record is well formed when \<open>lastMeasure\<close> has its ten bytes.
\<close>

definition wf_gps :: "BN220_GPS \<Rightarrow> bool" where
  "wf_gps g \<longleftrightarrow> length (lastMeasure g) = 10"

text \<open>
  Two runs of one step, from the records \<open>g\<close> and \<open>h\<close> to \<open>g'\<close> and \<open>h'\<close>, treat a field
  alike when both keep it or both leave the same value in it; \<open>step_rel\<close> says so of every
  field, the first byte of \<open>lastMeasure\<close> and its other bytes taken apart, and that both
  results are well formed. A step is steady when, wherever it returns from one well-formed
  record, it returns from every other one, with the same code, and the two runs are so
  related.
\<close>

definition field_rel ::
  "(BN220_GPS \<Rightarrow> 'a) \<Rightarrow> BN220_GPS \<Rightarrow> BN220_GPS \<Rightarrow> BN220_GPS \<Rightarrow> BN220_GPS \<Rightarrow> bool" where
  "field_rel field g g' h h' \<longleftrightarrow> (field g' = field g \<and> field h' = field h) \<or> field g' = field h'"

definition step_rel :: "BN220_GPS \<Rightarrow> BN220_GPS \<Rightarrow> BN220_GPS \<Rightarrow> BN220_GPS \<Rightarrow> bool" where
  "step_rel g g' h h' \<longleftrightarrow>
     wf_gps g' \<and> wf_gps h' \<and>
     field_rel lat g g' h h' \<and> field_rel NS g g' h h' \<and> field_rel lon g g' h h' \<and>
     field_rel EW g g' h h' \<and> field_rel altitude g g' h h' \<and> field_rel hdop g g' h h' \<and>
     field_rel satelliteCount g g' h h' \<and> field_rel fix_flag g g' h h' \<and>
     field_rel (\<lambda>g. hd (lastMeasure g)) g g' h h' \<and> field_rel (\<lambda>g. tl (lastMeasure g)) g g' h h'"

definition steady_dec :: "(BN220_GPS \<Rightarrow> fault + (int \<times> BN220_GPS)) \<Rightarrow> bool" where
  "steady_dec d \<longleftrightarrow>
     (\<forall>g h r g'. wf_gps g \<and> wf_gps h \<and> d g = Inr (r, g') \<longrightarrow>
        (\<exists>h'. d h = Inr (r, h') \<and> step_rel g g' h h'))"

definition steady :: "(BN220_GPS \<Rightarrow> fault + BN220_GPS) \<Rightarrow> bool" where
  "steady d \<longleftrightarrow>
     (\<forall>g h g'. wf_gps g \<and> wf_gps h \<and> d g = Inr g' \<longrightarrow> (\<exists>h'. d h = Inr h' \<and> step_rel g g' h h'))"

section \<open>Example records, sentences and buffers\<close>

definition CRLF :: string where
  "CRLF = [CHR 0x0D, CHR 0x0A]"

text \<open>The record as a zero-initialised global, and one that holds an earlier fix.\<close>

definition gps0 :: BN220_GPS where
  "gps0 = \<lparr>lat = Finite 0, NS = NUL, lon = Finite 0, EW = NUL, altitude = Finite 0,
            hdop = Finite 0, satelliteCount = 0, fix_flag = 0, lastMeasure = replicate 10 NUL\<rparr>"

definition gps_prev :: BN220_GPS where
  "gps_prev = \<lparr>lat = Finite 50, NS = CHR ''N'', lon = Finite 8, EW = CHR ''E'',
               altitude = Finite 100, hdop = Finite 2, satelliteCount = 4, fix_flag = 1,
               lastMeasure = ''225444.00'' @ [NUL]\<rparr>"

definition gll_sentence :: string where
  "gll_sentence = ''GPGLL,4807.038,N,01131.000,E,123519.00,A*0B'' @ CRLF"

definition gll_bad_ew :: string where
  "gll_bad_ew = ''GPGLL,4807.038,N,01131.000,X,123519.00,A*16'' @ CRLF"

definition gll_no_time :: string where
  "gll_no_time = ''GPGLL,4807.038,N,01131.000,E*69'' @ CRLF"

definition gga_sentence :: string where
  "gga_sentence = ''GPGGA,123519.00,4807.038,N,01131.000,E,1,08,0.9,545.4,M,46.9,M,,*69'' @ CRLF"

definition gga_bad_checksum :: string where
  "gga_bad_checksum = ''GPGGA,123519.00,4807.038,N,01131.000,E,1,08,0.9,545.4,M,46.9,M,,*68'' @ CRLF"

definition gga_zero_lat :: string where
  "gga_zero_lat = ''GPGGA,123519.00,0000.000,N,01131.000,E,1,08,0.9,545.4,M,46.9,M,,*69'' @ CRLF"

definition gga_no_hdop :: string where
  "gga_no_hdop = ''GPGGA,123519.00,4807.038,N,01131.000,E,1,08,,0.0,M,46.9,M,,*4E'' @ CRLF"

definition gsa_sentence :: string where
  "gsa_sentence = ''GPGSA,A,3,04,05,,09,12,,,24,,,,,2.5,1.3,2.1*39'' @ CRLF"

definition gsa_two :: string where
  "gsa_two = ''GPGSA,A,3,04,05,,,,,,,,,,,2.5,1.3,2.1*35'' @ CRLF"

definition gga_short_time :: string where
  "gga_short_time = ''GPGGA,123519,4807.038,N,01131.000,E,1,08,0.9,545.4,M,46.9,M,,*47'' @ CRLF"

section \<open>Properties of the checksum verifier\<close>



















section \<open>Properties of the floating-point model\<close>

lemma pow2_powi: "pow2 e = 2 powi e"
  unfolding pow2_def power_int_def by (simp add: inverse_eq_divide power_one_over)

lemma pow2_pos: "0 < pow2 e"
  by (simp add: pow2_powi)

lemma pow2_add: "pow2 (a + b) = pow2 a * pow2 b"
  by (simp add: pow2_powi power_int_add)

lemma pow2_mono: "a \<le> b \<Longrightarrow> pow2 a \<le> pow2 b"
  by (simp add: pow2_powi power_int_increasing)

lemma pow2_strict_mono: "a < b \<Longrightarrow> pow2 a < pow2 b"
  by (simp add: pow2_powi power_int_strict_increasing)

lemma pow2_nat: "pow2 (int n) = 2 ^ n"
  by (simp add: pow2_def)

lemma pow2_neg_nat: "pow2 (- int n) = 1 / 2 ^ n"
  by (simp add: pow2_powi power_int_minus_divide)

lemma bit_length_bounds: "0 < n \<Longrightarrow> 2 ^ (bit_length n - 1) \<le> n \<and> n < 2 ^ bit_length n"
proof (induction n rule: bit_length.induct)
  case (1 n)
  show ?case
  proof (cases "n div 2 = 0")
    case True
    with "1.prems" have "n = 1" by auto
    then show ?thesis by (simp add: bit_length.simps)
  next
    case False
    then have pos: "0 < n div 2" by simp
    from "1.prems" have n0: "n \<noteq> 0" by simp
    from "1.IH" [OF n0 pos]
    have ih: "2 ^ (bit_length (n div 2) - 1) \<le> n div 2" "n div 2 < 2 ^ bit_length (n div 2)"
      by simp_all
    have bl: "bit_length n = Suc (bit_length (n div 2))"
      using n0 by (subst bit_length.simps) simp
    have blpos: "0 < bit_length (n div 2)"
      using pos by (subst bit_length.simps) simp
    then obtain k where k: "bit_length (n div 2) = Suc k"
      by (cases "bit_length (n div 2)") auto
    from ih k have "2 ^ k \<le> n div 2" "n div 2 < 2 ^ Suc k" by simp_all
    then have "2 ^ Suc k \<le> n" "n < 2 ^ Suc (Suc k)" by auto
    with bl k show ?thesis by simp
  qed
qed

lemma rat_pow2_le_of_nat: "2 ^ a \<le> (n::nat) \<Longrightarrow> (2::rat) ^ a \<le> of_nat n"
proof -
  assume "2 ^ a \<le> n"
  then have "(of_nat (2 ^ a) :: rat) \<le> of_nat n" by (simp only: of_nat_le_iff)
  then show ?thesis by simp
qed

lemma rat_of_nat_Suc_le_pow2: "(n::nat) < 2 ^ a \<Longrightarrow> (of_nat n + 1 :: rat) \<le> 2 ^ a"
proof -
  assume "n < 2 ^ a"
  then have "Suc n \<le> 2 ^ a" by simp
  then have "(of_nat (Suc n) :: rat) \<le> of_nat (2 ^ a)" by (simp only: of_nat_le_iff)
  then show ?thesis by simp
qed

lemma ilog2_bounds:
  assumes "0 < x"
  shows "pow2 (ilog2 x) \<le> x \<and> x < pow2 (ilog2 x + 1)"
proof (cases "1 \<le> x")
  case True
  define n where "n = nat \<lfloor>x\<rfloor>"
  have npos: "0 < n" using True by (simp add: n_def)
  have "0 \<le> \<lfloor>x\<rfloor>" using True by simp
  then have eq: "(of_nat n :: rat) = of_int \<lfloor>x\<rfloor>" by (simp add: n_def)
  have nx: "of_nat n \<le> x" "x < of_nat n + 1"
    unfolding eq using floor_correct [of x] by simp_all
  from bit_length_bounds [OF npos] have b: "2 ^ (bit_length n - 1) \<le> n" "n < 2 ^ bit_length n"
    by simp_all
  have blpos: "0 < bit_length n" using npos by (subst bit_length.simps) simp
  have il: "ilog2 x = int (bit_length n - 1)"
    using True blpos by (simp add: ilog2_def n_def)
  have "(2::rat) ^ (bit_length n - 1) \<le> of_nat n"
    using b(1) by (rule rat_pow2_le_of_nat)
  from this nx(1) have "(2::rat) ^ (bit_length n - 1) \<le> x"
    by (rule order_trans)
  then have lo: "pow2 (ilog2 x) \<le> x"
    unfolding il pow2_nat .
  have "(of_nat n + 1 :: rat) \<le> 2 ^ bit_length n"
    using b(2) by (rule rat_of_nat_Suc_le_pow2)
  with nx(2) have "x < 2 ^ bit_length n"
    by (rule less_le_trans)
  moreover have "ilog2 x + 1 = int (bit_length n)"
    using il blpos by simp
  ultimately have "x < pow2 (ilog2 x + 1)"
    by (simp add: pow2_nat)
  with lo show ?thesis by simp
next
  case False
  then have x1: "x < 1" by simp
  define y where "y = 1 / x"
  have y1: "1 < y" using assms x1 by (simp add: y_def)
  define k where "k = nat (\<lceil>y\<rceil> - 1)"
  have cy: "2 \<le> \<lceil>y\<rceil>" using y1 by (simp add: le_ceiling_iff)
  then have kpos: "0 < k" by (simp add: k_def)
  have ky: "of_nat k < y" "y \<le> of_nat k + 1"
  proof -
    have "of_int (\<lceil>y\<rceil> - 1) < y" "y \<le> of_int \<lceil>y\<rceil>"
      using ceiling_correct [of y] by simp_all
    moreover have "(of_nat k :: rat) = of_int (\<lceil>y\<rceil> - 1)"
      using cy by (simp add: k_def)
    ultimately show "of_nat k < y" "y \<le> of_nat k + 1" by simp_all
  qed
  from bit_length_bounds [OF kpos] have b: "2 ^ (bit_length k - 1) \<le> k" "k < 2 ^ bit_length k"
    by simp_all
  have blpos: "0 < bit_length k" using kpos by (subst bit_length.simps) simp
  have il: "ilog2 x = - int (bit_length k)"
    using False by (simp add: ilog2_def k_def y_def)
  have "(2::rat) ^ (bit_length k - 1) \<le> of_nat k"
    using b(1) by (rule rat_pow2_le_of_nat)
  from this ky(1) have lo: "2 ^ (bit_length k - 1) < y"
    by (rule le_less_trans)
  have "(of_nat k + 1 :: rat) \<le> 2 ^ bit_length k"
    using b(2) by (rule rat_of_nat_Suc_le_pow2)
  with ky(2) have hi: "y \<le> 2 ^ bit_length k"
    by (rule order_trans)
  have xy: "x = 1 / y" using assms by (simp add: y_def)
  have "1 / 2 ^ bit_length k \<le> x"
    unfolding xy using hi y1 by (simp add: frac_le)
  then have A: "pow2 (ilog2 x) \<le> x"
    unfolding il pow2_neg_nat .
  have "x < 1 / 2 ^ (bit_length k - 1)"
    unfolding xy using lo by (simp add: frac_less2)
  moreover have "ilog2 x + 1 = - int (bit_length k - 1)"
    using il blpos by simp
  ultimately have "x < pow2 (ilog2 x + 1)"
    by (simp add: pow2_neg_nat)
  with A show ?thesis by simp
qed

lemma ilog2_eqI:
  assumes "pow2 e \<le> x" "x < pow2 (e + 1)"
  shows "ilog2 x = e"
proof -
  have "0 < x" using assms(1) pow2_pos [of e] by simp
  from ilog2_bounds [OF this] have b: "pow2 (ilog2 x) \<le> x" "x < pow2 (ilog2 x + 1)"
    by simp_all
  have "\<not> ilog2 x < e"
  proof
    assume "ilog2 x < e"
    then have "pow2 (ilog2 x + 1) \<le> pow2 e" by (intro pow2_mono) simp
    with b(2) assms(1) show False by simp
  qed
  moreover have "\<not> e < ilog2 x"
  proof
    assume "e < ilog2 x"
    then have "pow2 (e + 1) \<le> pow2 (ilog2 x)" by (intro pow2_mono) simp
    with b(1) assms(2) show False by simp
  qed
  ultimately show ?thesis by simp
qed

lemma round_half_even_eqI:
  assumes "\<bar>y - of_int m\<bar> < 1 / 2"
  shows "round_half_even y = m"
proof -
  have lo: "of_int m - 1 / 2 < y" and hi: "y < of_int m + 1 / 2"
    using assms by linarith+
  show ?thesis
  proof (cases "of_int m \<le> y")
    case True
    then have f: "\<lfloor>y\<rfloor> = m" using hi by (intro floor_unique) simp_all
    then show ?thesis using hi by (simp add: round_half_even_def Let_def)
  next
    case False
    then have f: "\<lfloor>y\<rfloor> = m - 1" using lo by (intro floor_unique) simp_all
    then show ?thesis using lo False by (simp add: round_half_even_def Let_def)
  qed
qed

lemma round_half_even_of_int: "round_half_even (of_int m) = m"
  by (rule round_half_even_eqI) simp

lemma round_fp_eqI:
  assumes e: "pow2 e \<le> \<bar>x\<bar>" "\<bar>x\<bar> < pow2 (e + 1)"
    and ulp: "ulp = pow2 (max e emin - int p + 1)"
    and m: "\<bar>x / ulp - of_int m\<bar> < 1 / 2"
    and rng: "\<bar>of_int m * ulp\<bar> < pow2 (emax + 1)"
  shows "round_fp p emin emax x = Finite (of_int m * ulp)"
proof -
  have x0: "x \<noteq> 0" using e(1) pow2_pos [of e] by auto
  have il: "ilog2 \<bar>x\<bar> = e" using e by (rule ilog2_eqI)
  have r: "round_half_even (x / ulp) = m" using m by (rule round_half_even_eqI)
  from rng have "\<not> pow2 (emax + 1) \<le> of_int m * ulp" "\<not> of_int m * ulp \<le> - pow2 (emax + 1)"
    by (simp_all add: abs_less_iff)
  then show ?thesis
    using x0 r by (simp add: round_fp_def il Let_def ulp [symmetric])
qed

section \<open>Properties of the splitting loop\<close>

lemma NUL_neq_dollar: "NUL \<noteq> CHR ''$''" "CHR ''$'' \<noteq> NUL"
  by (simp_all add: NUL_def)

lemma drop_skip: "drop (pos + length (takeWhile P (drop pos mem))) mem = dropWhile P (drop pos mem)"
  by (simp add: dropWhile_eq_drop add.commute)

lemma cstr_Nil_iff: "cstr (drop s mem) = [] \<longleftrightarrow> byte_at mem s = NUL"
proof (cases "s < length mem")
  case True
  then have "drop s mem = mem ! s # drop (Suc s) mem"
    by (simp add: Cons_nth_drop_Suc)
  then show ?thesis using True by (simp add: cstr_def byte_at_def)
next
  case False
  then show ?thesis by (simp add: cstr_def byte_at_def)
qed

lemma cstr_dropWhile_dollar:
  "cstr (dropWhile (\<lambda>c. c = CHR ''$'') r) = dropWhile (\<lambda>c. c = CHR ''$'') (cstr r)"
  by (induction r) (auto simp: cstr_def NUL_neq_dollar)

lemma takeWhile_token:
  "takeWhile (\<lambda>c. c \<noteq> CHR ''$'' \<and> c \<noteq> NUL) r = takeWhile (\<lambda>c. c \<noteq> CHR ''$'') (cstr r)"
  by (induction r) (auto simp: cstr_def)

lemma cstr_dropWhile_token:
  "cstr (dropWhile (\<lambda>c. c \<noteq> CHR ''$'' \<and> c \<noteq> NUL) r) = dropWhile (\<lambda>c. c \<noteq> CHR ''$'') (cstr r)"
  by (induction r) (auto simp: cstr_def)

lemma candidates_of_Nil: "candidates_of [] = []"
  by (simp add: candidates_of.simps)

lemma candidates_of_dollar: "candidates_of (CHR ''$'' # s) = candidates_of s"
  by (subst candidates_of.simps, subst (2) candidates_of.simps) simp

lemma candidates_of_skip: "candidates_of (dropWhile (\<lambda>c. c = CHR ''$'') s) = candidates_of s"
  by (induction s) (simp_all add: candidates_of_dollar)

lemma candidates_of_Cons:
  "c \<noteq> CHR ''$'' \<Longrightarrow>
     candidates_of (c # r) = (c # takeWhile (\<lambda>c. c \<noteq> CHR ''$'') r)
        # candidates_of (dropWhile (\<lambda>c. c \<noteq> CHR ''$'') r)"
  by (subst candidates_of.simps) simp

lemma strtok_None:
  assumes "candidates_of (cstr (drop pos mem)) = []"
  shows "\<exists>p. strtok mem pos (CHR ''$'') = (None, mem, p)"
proof -
  define s where "s = pos + length (takeWhile (\<lambda>c. c = CHR ''$'') (drop pos mem))"
  have r1: "drop s mem = dropWhile (\<lambda>c. c = CHR ''$'') (drop pos mem)"
    unfolding s_def by (rule drop_skip)
  have c1: "cstr (drop s mem) = dropWhile (\<lambda>c. c = CHR ''$'') (cstr (drop pos mem))"
    unfolding r1 by (rule cstr_dropWhile_dollar)
  have "candidates_of (cstr (drop s mem)) = []"
    unfolding c1 candidates_of_skip by (rule assms)
  moreover have "candidates_of (cstr (drop s mem)) \<noteq> []" if "cstr (drop s mem) \<noteq> []"
  proof -
    from that obtain c rest where cr: "cstr (drop s mem) = c # rest"
      by (cases "cstr (drop s mem)") auto
    have "c \<noteq> CHR ''$''"
      using cr hd_dropWhile [of "\<lambda>c. c = CHR ''$''" "cstr (drop pos mem)"] unfolding c1 by auto
    then show ?thesis
      unfolding cr by (simp add: candidates_of_Cons)
  qed
  ultimately have "cstr (drop s mem) = []"
    by blast
  then have "byte_at mem s = NUL"
    by (simp add: cstr_Nil_iff)
  then have "strtok mem pos (CHR ''$'') = (None, mem, s)"
    by (simp add: strtok_def s_def [symmetric])
  then show ?thesis ..
qed

lemma strtok_Some:
  assumes "candidates_of (cstr (drop pos mem)) = t # ts"
  shows "\<exists>mem' pos'. strtok mem pos (CHR ''$'') = (Some t, mem', pos') \<and>
           length mem' = length mem \<and>
           candidates_of (cstr (drop pos' mem')) = ts \<and>
           ((mem' = mem \<and> ts = [] \<and>
               CHR ''$'' \<notin> set (dropWhile (\<lambda>c. c = CHR ''$'') (cstr (drop pos mem)))) \<or>
            (\<exists>e. pos \<le> e \<and> e < pos' \<and> e < length mem \<and> mem ! e = CHR ''$'' \<and>
                 mem' = mem[e := NUL] \<and>
                 CHR ''$'' \<in> set (dropWhile (\<lambda>c. c = CHR ''$'') (cstr (drop pos mem)))))"
proof -
  define s where "s = pos + length (takeWhile (\<lambda>c. c = CHR ''$'') (drop pos mem))"
  define c1 where "c1 = dropWhile (\<lambda>c. c = CHR ''$'') (cstr (drop pos mem))"
  have r1: "drop s mem = dropWhile (\<lambda>c. c = CHR ''$'') (drop pos mem)"
    unfolding s_def by (rule drop_skip)
  have c1: "cstr (drop s mem) = c1"
    unfolding r1 c1_def by (rule cstr_dropWhile_dollar)
  have cand: "candidates_of c1 = t # ts"
    unfolding c1_def candidates_of_skip by (rule assms)
  then have "c1 \<noteq> []"
    by (auto simp: candidates_of_Nil)
  then obtain c rest where cr: "c1 = c # rest"
    by (cases c1) auto
  have cd: "c \<noteq> CHR ''$''"
    using cr hd_dropWhile [of "\<lambda>c. c = CHR ''$''" "cstr (drop pos mem)"] unfolding c1_def by auto
  from cand have t: "t = takeWhile (\<lambda>c. c \<noteq> CHR ''$'') c1"
    and ts: "ts = candidates_of (dropWhile (\<lambda>c. c \<noteq> CHR ''$'') c1)"
    unfolding cr using cd by (simp_all add: candidates_of_Cons)
  have nz: "byte_at mem s \<noteq> NUL"
    using \<open>c1 \<noteq> []\<close> c1 by (simp add: cstr_Nil_iff [symmetric])
  have tok: "takeWhile (\<lambda>c. c \<noteq> CHR ''$'' \<and> c \<noteq> NUL) (drop s mem) = t"
    unfolding takeWhile_token c1 t ..
  define e where "e = s + length t"
  have r2: "drop e mem = dropWhile (\<lambda>c. c \<noteq> CHR ''$'' \<and> c \<noteq> NUL) (drop s mem)"
    unfolding e_def tok [symmetric] by (rule drop_skip)
  have c2: "cstr (drop e mem) = dropWhile (\<lambda>c. c \<noteq> CHR ''$'') c1"
    unfolding r2 cstr_dropWhile_token c1 ..
  have pe: "pos \<le> e"
    by (simp add: e_def s_def)
  show ?thesis
  proof (cases "byte_at mem e = NUL")
    case True
    then have st: "strtok mem pos (CHR ''$'') = (Some t, mem, e)"
      using nz by (simp add: strtok_def s_def [symmetric] tok e_def [symmetric] Let_def)
    from True have z: "dropWhile (\<lambda>c. c \<noteq> CHR ''$'') c1 = []"
      unfolding c2 [symmetric] by (simp add: cstr_Nil_iff)
    have ts0: "ts = []"
      unfolding ts z by (rule candidates_of_Nil)
    have "c1 = takeWhile (\<lambda>c. c \<noteq> CHR ''$'') c1 @ dropWhile (\<lambda>c. c \<noteq> CHR ''$'') c1"
      by simp
    then have "c1 = takeWhile (\<lambda>c. c \<noteq> CHR ''$'') c1"
      unfolding z by simp
    then have "CHR ''$'' \<notin> set c1"
      by (metis (mono_tags, lifting) set_takeWhileD)
    moreover have "candidates_of (cstr (drop e mem)) = ts"
      unfolding c2 z ts0 by (rule candidates_of_Nil)
    ultimately show ?thesis
      using st ts0 unfolding c1_def by blast
  next
    case False
    then have elt: "e < length mem"
      by (auto simp: byte_at_def split: if_splits)
    then have d2: "drop e mem = mem ! e # drop (Suc e) mem"
      by (simp add: Cons_nth_drop_Suc)
    have me: "mem ! e \<noteq> NUL"
      using False elt by (simp add: byte_at_def)
    have "\<not> (\<lambda>c. c \<noteq> CHR ''$'' \<and> c \<noteq> NUL) (hd (drop e mem))"
      unfolding r2 using d2 r2 by (intro hd_dropWhile) auto
    then have med: "mem ! e = CHR ''$''"
      using me d2 by simp
    have st: "strtok mem pos (CHR ''$'') = (Some t, mem[e := NUL], Suc e)"
      using nz False by (simp add: strtok_def s_def [symmetric] tok e_def [symmetric] Let_def)
    have "drop (Suc e) (mem[e := NUL]) = drop (Suc e) mem"
      by simp
    moreover have "cstr (drop e mem) = CHR ''$'' # cstr (drop (Suc e) mem)"
      unfolding d2 med by (simp add: cstr_def NUL_neq_dollar)
    ultimately have rest: "candidates_of (cstr (drop (Suc e) (mem[e := NUL]))) = ts"
      using ts c2 by (simp add: candidates_of_dollar)
    have "dropWhile (\<lambda>c. c \<noteq> CHR ''$'') c1 = CHR ''$'' # cstr (drop (Suc e) mem)"
      using c2 \<open>cstr (drop e mem) = CHR ''$'' # cstr (drop (Suc e) mem)\<close> by simp
    then have "CHR ''$'' \<in> set (dropWhile (\<lambda>c. c \<noteq> CHR ''$'') c1)"
      by (simp only: list.set_intros)
    then have "CHR ''$'' \<in> set c1"
      by (rule set_dropWhileD)
    with st rest pe elt med show ?thesis
      unfolding c1_def by (intro exI [of _ "mem[e := NUL]"] exI [of _ "Suc e"]) auto
  qed
qed

lemma candidates_of_eq_Nil:
  "candidates_of s = [] \<Longrightarrow> dropWhile (\<lambda>c. c = CHR ''$'') s = []"
proof (rule ccontr)
  assume a: "candidates_of s = []" and n: "dropWhile (\<lambda>c. c = CHR ''$'') s \<noteq> []"
  then obtain c rest where cr: "dropWhile (\<lambda>c. c = CHR ''$'') s = c # rest"
    by (cases "dropWhile (\<lambda>c. c = CHR ''$'') s") auto
  have "c \<noteq> CHR ''$''"
    using cr hd_dropWhile [of "\<lambda>c. c = CHR ''$''" s] by auto
  then have "candidates_of (c # rest) \<noteq> []"
    by (simp add: candidates_of_Cons)
  then show False
    using a cr candidates_of_skip [of s] by simp
qed

lemma split_loop_None:
  "strtok mem pos (CHR ''$'') = (None, mem', pos') \<Longrightarrow> split_loop mem pos data = Inr (data, mem')"
  by (subst split_loop.simps) simp

lemma split_loop_Some:
  "strtok mem pos (CHR ''$'') = (Some t, mem', pos') \<Longrightarrow>
     split_loop mem pos data =
       (if length data < 15 then split_loop mem' pos' (data @ [t]) else Inl OutOfBoundsWrite)"
  by (subst split_loop.simps) simp

lemma split_loop_overflow:
  assumes "candidates_of (cstr (drop pos mem)) = toks" "length data \<le> 15"
    "15 < length data + length toks"
  shows "split_loop mem pos data = Inl OutOfBoundsWrite"
  using assms
proof (induction toks arbitrary: mem pos data)
  case Nil
  then show ?case by simp
next
  case (Cons t ts)
  from strtok_Some [OF Cons.prems(1)] obtain mem' pos' where
    st: "strtok mem pos (CHR ''$'') = (Some t, mem', pos')"
    and rest: "candidates_of (cstr (drop pos' mem')) = ts"
    by blast
  show ?case
  proof (cases "length data < 15")
    case True
    then have "split_loop mem' pos' (data @ [t]) = Inl OutOfBoundsWrite"
      using Cons.prems by (intro Cons.IH [OF rest]) simp_all
    with True show ?thesis
      by (simp add: split_loop_Some [OF st])
  next
    case False
    then show ?thesis
      by (simp add: split_loop_Some [OF st])
  qed
qed

lemma split_loop_ok:
  assumes "candidates_of (cstr (drop pos mem)) = toks" "length data + length toks \<le> 15"
  shows "\<exists>mem'. split_loop mem pos data = Inr (data @ toks, mem') \<and>
           length mem' = length mem \<and> take pos mem' = take pos mem \<and>
           (\<forall>i<length mem. mem' ! i = mem ! i \<or> (mem ! i = CHR ''$'' \<and> mem' ! i = NUL)) \<and>
           (mem' \<noteq> mem \<longleftrightarrow>
              CHR ''$'' \<in> set (dropWhile (\<lambda>c. c = CHR ''$'') (cstr (drop pos mem))))"
  using assms
proof (induction toks arbitrary: mem pos data)
  case Nil
  from strtok_None [OF Nil.prems(1)] obtain p where
    "strtok mem pos (CHR ''$'') = (None, mem, p)" ..
  then have "split_loop mem pos data = Inr (data, mem)"
    by (rule split_loop_None)
  moreover have "CHR ''$'' \<notin> set (dropWhile (\<lambda>c. c = CHR ''$'') (cstr (drop pos mem)))"
    unfolding candidates_of_eq_Nil [OF Nil.prems(1)] by simp
  ultimately show ?case by simp
next
  case (Cons t ts)
  from strtok_Some [OF Cons.prems(1)] obtain mem1 pos1 where
    st: "strtok mem pos (CHR ''$'') = (Some t, mem1, pos1)"
    and len1: "length mem1 = length mem"
    and rest: "candidates_of (cstr (drop pos1 mem1)) = ts"
    and alt: "(mem1 = mem \<and> ts = [] \<and>
               CHR ''$'' \<notin> set (dropWhile (\<lambda>c. c = CHR ''$'') (cstr (drop pos mem)))) \<or>
            (\<exists>e. pos \<le> e \<and> e < pos1 \<and> e < length mem \<and> mem ! e = CHR ''$'' \<and>
                 mem1 = mem[e := NUL] \<and>
                 CHR ''$'' \<in> set (dropWhile (\<lambda>c. c = CHR ''$'') (cstr (drop pos mem))))"
    by blast
  from Cons.prems(2) have lt: "length data < 15" and le: "length (data @ [t]) + length ts \<le> 15"
    by simp_all
  from Cons.IH [OF rest le] obtain mem' where
    sl: "split_loop mem1 pos1 (data @ [t]) = Inr ((data @ [t]) @ ts, mem')"
    and len': "length mem' = length mem1"
    and tk: "take pos1 mem' = take pos1 mem1"
    and pw: "\<forall>i<length mem1. mem' ! i = mem1 ! i \<or> (mem1 ! i = CHR ''$'' \<and> mem' ! i = NUL)"
    and ch: "mem' \<noteq> mem1 \<longleftrightarrow>
              CHR ''$'' \<in> set (dropWhile (\<lambda>c. c = CHR ''$'') (cstr (drop pos1 mem1)))"
    by blast
  have res: "split_loop mem pos data = Inr (data @ t # ts, mem')"
    using lt sl by (simp add: split_loop_Some [OF st])
  from alt show ?case
  proof
    assume a: "mem1 = mem \<and> ts = [] \<and>
               CHR ''$'' \<notin> set (dropWhile (\<lambda>c. c = CHR ''$'') (cstr (drop pos mem)))"
    then have "candidates_of (cstr (drop pos1 mem1)) = []"
      using rest by simp
    then have "CHR ''$'' \<notin> set (dropWhile (\<lambda>c. c = CHR ''$'') (cstr (drop pos1 mem1)))"
      by (simp only: candidates_of_eq_Nil list.set empty_iff not_False_eq_True)
    with ch have "mem' = mem1" by simp
    with a res show ?thesis by simp
  next
    assume "\<exists>e. pos \<le> e \<and> e < pos1 \<and> e < length mem \<and> mem ! e = CHR ''$'' \<and>
                 mem1 = mem[e := NUL] \<and>
                 CHR ''$'' \<in> set (dropWhile (\<lambda>c. c = CHR ''$'') (cstr (drop pos mem)))"
    then obtain e where e: "pos \<le> e" "e < pos1" "e < length mem" "mem ! e = CHR ''$''"
      and m1: "mem1 = mem[e := NUL]"
      and d: "CHR ''$'' \<in> set (dropWhile (\<lambda>c. c = CHR ''$'') (cstr (drop pos mem)))"
      by blast
    have "take pos mem' = take pos (take pos1 mem')"
      using e by (simp add: min_def)
    also have "\<dots> = take pos (take pos1 mem1)"
      unfolding tk ..
    also have "\<dots> = take pos mem"
      using e by (simp add: m1 min_def)
    finally have tk': "take pos mem' = take pos mem" .
    have pw': "mem' ! i = mem ! i \<or> (mem ! i = CHR ''$'' \<and> mem' ! i = NUL)" if "i < length mem" for i
    proof (cases "i = e")
      case True
      from pw that len1 have "mem' ! i = mem1 ! i \<or> (mem1 ! i = CHR ''$'' \<and> mem' ! i = NUL)"
        by simp
      moreover have "mem1 ! i = NUL"
        using True e by (simp add: m1)
      ultimately have "mem' ! i = NUL"
        by auto
      with True e show ?thesis by simp
    next
      case False
      from pw that len1 have "mem' ! i = mem1 ! i \<or> (mem1 ! i = CHR ''$'' \<and> mem' ! i = NUL)"
        by simp
      moreover have "mem1 ! i = mem ! i"
        using False by (simp add: m1)
      ultimately show ?thesis by simp
    qed
    have "mem' ! e = take pos1 mem' ! e"
      using e(2) by simp
    also have "\<dots> = mem1 ! e"
      unfolding tk using e(2) by simp
    also have "\<dots> = NUL"
      using e(3) by (simp add: m1)
    finally have "mem' ! e = NUL" .
    with e(4) have "mem' \<noteq> mem"
      by (auto simp: NUL_neq_dollar)
    with res len' len1 tk' pw' d show ?thesis
      by simp
  qed
qed

section \<open>Properties of the dispatch loop\<close>

lemma dispatch_from_seq:
  "i \<le> length data \<Longrightarrow> dispatch_from data i (length data) g = dispatch_seq g (drop i data)"
proof (induction "length data - i" arbitrary: i g)
  case 0
  then show ?case
    by (subst dispatch_from.simps) simp
next
  case (Suc n)
  then have lt: "i < length data"
    by simp
  then have d: "drop i data = data ! i # drop (Suc i) data"
    by (simp add: Cons_nth_drop_Suc)
  have ih: "dispatch_from data (Suc i) (length data) g' = dispatch_seq g' (drop (Suc i) data)" for g'
    using Suc.hyps(2) lt by (intro Suc.hyps(1)) simp_all
  show ?case
    unfolding d using lt ih
    by (subst dispatch_from.simps) (simp split: sum.splits)
qed

lemma gpsParse_overflow:
  assumes "15 < length (candidates b)"
  shows "gpsParse g b = Inl OutOfBoundsWrite"
proof -
  have "split_loop b 0 [] = Inl OutOfBoundsWrite"
    using assms by (intro split_loop_overflow [where toks = "candidates b"]) (simp_all add: candidates_def)
  then show ?thesis
    by (simp add: gpsParse_def)
qed

lemma gpsParse_ok:
  assumes "length (candidates b) \<le> 15"
  shows "\<exists>b'. split_loop b 0 [] = Inr (candidates b, b') \<and>
           gpsParse g b = (case dispatch_seq g (candidates b) of
                             Inl f \<Rightarrow> Inl f | Inr g' \<Rightarrow> Inr (g', b')) \<and>
           length b' = length b \<and>
           (\<forall>i<length b. b' ! i = b ! i \<or> (b ! i = CHR ''$'' \<and> b' ! i = NUL)) \<and>
           (b' \<noteq> b \<longleftrightarrow> CHR ''$'' \<in> set (dropWhile (\<lambda>c. c = CHR ''$'') (cstr b)))"
proof -
  have "candidates_of (cstr (drop 0 b)) = candidates b"
    by (simp add: candidates_def)
  from split_loop_ok [OF this, of "[]"] assms obtain b' where
    sl: "split_loop b 0 [] = Inr (candidates b, b')"
    and rest: "length b' = length b"
      "\<forall>i<length b. b' ! i = b ! i \<or> (b ! i = CHR ''$'' \<and> b' ! i = NUL)"
      "b' \<noteq> b \<longleftrightarrow> CHR ''$'' \<in> set (dropWhile (\<lambda>c. c = CHR ''$'') (cstr b))"
    by auto
  have "gpsParse g b = (case dispatch_seq g (candidates b) of
                             Inl f \<Rightarrow> Inl f | Inr g' \<Rightarrow> Inr (g', b'))"
    using dispatch_from_seq [of 0 "candidates b" g] by (simp add: gpsParse_def sl)
  with sl rest show ?thesis
    by blast
qed

section \<open>Rounding of the values of the example sentences\<close>

lemma round32_minutes_7_038: "round32 (3519 / 500) = Finite (3689939 / 524288)"
proof -
  have "round_fp 24 (- 126) 127 (3519 / 500) = Finite (of_int 14759756 * pow2 (- 21))"
    by (rule round_fp_eqI [where e = "2"]) (simp_all add: pow2_def)
  then show ?thesis
    by (simp add: round32_def pow2_def)
qed

lemma round32_31: "round32 31 = Finite 31"
proof -
  have "round_fp 24 (- 126) 127 31 = Finite (of_int 16252928 * pow2 (- 19))"
    by (rule round_fp_eqI [where e = "4"]) (simp_all add: pow2_def)
  then show ?thesis
    by (simp add: round32_def pow2_def)
qed

lemma round32_48: "round32 48 = Finite 48"
proof -
  have "round_fp 24 (- 126) 127 48 = Finite (of_int 12582912 * pow2 (- 18))"
    by (rule round_fp_eqI [where e = "5"]) (simp_all add: pow2_def)
  then show ?thesis
    by (simp add: round32_def pow2_def)
qed

lemma round32_11: "round32 11 = Finite 11"
proof -
  have "round_fp 24 (- 126) 127 11 = Finite (of_int 11534336 * pow2 (- 20))"
    by (rule round_fp_eqI [where e = "3"]) (simp_all add: pow2_def)
  then show ?thesis
    by (simp add: round32_def pow2_def)
qed

lemma round64_48: "round64 48 = Finite 48"
proof -
  have "round_fp 53 (- 1022) 1023 48 = Finite (of_int 6755399441055744 * pow2 (- 47))"
    by (rule round_fp_eqI [where e = "5"]) (simp_all add: pow2_def)
  then show ?thesis
    by (simp add: round64_def pow2_def)
qed

lemma round64_11: "round64 11 = Finite 11"
proof -
  have "round_fp 53 (- 1022) 1023 11 = Finite (of_int 6192449487634432 * pow2 (- 49))"
    by (rule round_fp_eqI [where e = "3"]) (simp_all add: pow2_def)
  then show ?thesis
    by (simp add: round64_def pow2_def)
qed

lemma round64_lat_quotient: "round64 (3689939 / 31457280) = Finite (8452355908925303 / 72057594037927936)"
proof -
  have "round_fp 53 (- 1022) 1023 (3689939 / 31457280) = Finite (of_int 8452355908925303 * pow2 (- 56))"
    by (rule round_fp_eqI [where e = "(- 4)"]) (simp_all add: pow2_def)
  then show ?thesis
    by (simp add: round64_def pow2_def)
qed

lemma round64_lat_sum: "round64 (3467216869729466231 / 72057594037927936) = Finite (1692976987172591 / 35184372088832)"
proof -
  have "round_fp 53 (- 1022) 1023 (3467216869729466231 / 72057594037927936) = Finite (of_int 6771907948690364 * pow2 (- 47))"
    by (rule round_fp_eqI [where e = "5"]) (simp_all add: pow2_def)
  then show ?thesis
    by (simp add: round64_def pow2_def)
qed

lemma round64_lon_quotient: "round64 (31 / 60) = Finite (4653719614949513 / 9007199254740992)"
proof -
  have "round_fp 53 (- 1022) 1023 (31 / 60) = Finite (of_int 4653719614949513 * pow2 (- 53))"
    by (rule round_fp_eqI [where e = "(- 1)"]) (simp_all add: pow2_def)
  then show ?thesis
    by (simp add: round64_def pow2_def)
qed

lemma round64_lon_sum: "round64 (103732911417100425 / 9007199254740992) = Finite (6483306963568777 / 562949953421312)"
proof -
  have "round_fp 53 (- 1022) 1023 (103732911417100425 / 9007199254740992) = Finite (of_int 6483306963568777 * pow2 (- 49))"
    by (rule round_fp_eqI [where e = "3"]) (simp_all add: pow2_def)
  then show ?thesis
    by (simp add: round64_def pow2_def)
qed

lemma round32_lat_quotient: "round32 (3689939 / 31457280) = Finite (3935935 / 33554432)"
proof -
  have "round_fp 24 (- 126) 127 (3689939 / 31457280) = Finite (of_int 15743740 * pow2 (- 27))"
    by (rule round_fp_eqI [where e = "(- 4)"]) (simp_all add: pow2_def)
  then show ?thesis
    by (simp add: round32_def pow2_def)
qed

lemma round32_lat_sum: "round32 (1614548671 / 33554432) = Finite (12613661 / 262144)"
proof -
  have "round_fp 24 (- 126) 127 (1614548671 / 33554432) = Finite (of_int 12613661 * pow2 (- 18))"
    by (rule round_fp_eqI [where e = "5"]) (simp_all add: pow2_def)
  then show ?thesis
    by (simp add: round32_def pow2_def)
qed

lemma round32_lon_quotient: "round32 (31 / 60) = Finite (2167057 / 4194304)"
proof -
  have "round_fp 24 (- 126) 127 (31 / 60) = Finite (of_int 8668228 * pow2 (- 24))"
    by (rule round_fp_eqI [where e = "(- 1)"]) (simp_all add: pow2_def)
  then show ?thesis
    by (simp add: round32_def pow2_def)
qed

lemma round32_lon_sum: "round32 (48304401 / 4194304) = Finite (3019025 / 262144)"
proof -
  have "round_fp 24 (- 126) 127 (48304401 / 4194304) = Finite (of_int 12076100 * pow2 (- 20))"
    by (rule round_fp_eqI [where e = "3"]) (simp_all add: pow2_def)
  then show ?thesis
    by (simp add: round32_def pow2_def)
qed

lemma round32_hdop_0_9: "round32 (9 / 10) = Finite (7549747 / 8388608)"
proof -
  have "round_fp 24 (- 126) 127 (9 / 10) = Finite (of_int 15099494 * pow2 (- 24))"
    by (rule round_fp_eqI [where e = "(- 1)"]) (simp_all add: pow2_def)
  then show ?thesis
    by (simp add: round32_def pow2_def)
qed

lemma round32_altitude_545_4: "round32 (2727 / 5) = Finite (4467917 / 8192)"
proof -
  have "round_fp 24 (- 126) 127 (2727 / 5) = Finite (of_int 8935834 * pow2 (- 14))"
    by (rule round_fp_eqI [where e = "9"]) (simp_all add: pow2_def)
  then show ?thesis
    by (simp add: round32_def pow2_def)
qed

section \<open>The decoders on the example sentences\<close>

lemmas parse_defs = strtof_def decimal_value_def hex_value_def fraction_digits_def exponent_part_def
  starts_with_nocase_def tolower_def isdigit_def isxdigit_def ipow_def sign_prefix_def isspace_def
  digit_in_def digit_val_def Let_def

lemma strtof_07_038: "strtof ''07.038'' = Finite (3689939 / 524288)"
  by (simp add: parse_defs round32_minutes_7_038)

lemma strtof_31_000: "strtof ''31.000'' = Finite 31"
  by (simp add: parse_defs round32_31)

lemma strtof_00_000: "strtof ''00.000'' = Finite 0"
  by (simp add: parse_defs round32_def round_fp_def)

lemma strtof_0_0: "strtof ''0.0'' = Finite 0"
  by (simp add: parse_defs round32_def round_fp_def)

lemma strtof_empty: "strtof [] = Finite 0"
  by (simp add: parse_defs round32_def round_fp_def)

lemma strtof_0_9: "strtof ''0.9'' = Finite (7549747 / 8388608)"
  by (simp add: parse_defs round32_hdop_0_9)

lemma strtof_545_4: "strtof ''545.4'' = Finite (4467917 / 8192)"
  by (simp add: parse_defs round32_altitude_545_4)

lemma strtol_48: "strtol ''48'' 10 = 48"
  by (simp add: strtol_def parse_defs LONG_MAX_def LONG_MIN_def)

lemma strtol_00: "strtol ''00'' 10 = 0"
  by (simp add: strtol_def parse_defs LONG_MAX_def LONG_MIN_def)

lemma strtol_011: "strtol ''011'' 10 = 11"
  by (simp add: strtol_def parse_defs LONG_MAX_def LONG_MIN_def)

lemma strtol_1: "strtol ''1'' 10 = 1"
  by (simp add: strtol_def parse_defs LONG_MAX_def LONG_MIN_def)

lemma strtol_08: "strtol ''08'' 10 = 8"
  by (simp add: strtol_def parse_defs LONG_MAX_def LONG_MIN_def)

lemma strtol_3: "strtol ''3'' 10 = 3"
  by (simp add: strtol_def parse_defs LONG_MAX_def LONG_MIN_def)

lemmas field_evals = strtof_07_038 strtof_31_000 strtof_00_000 strtof_0_0 strtof_empty strtof_0_9
  strtof_545_4 strtol_48 strtol_00 strtol_011 strtol_1 strtol_08 strtol_3

lemmas fp_evals = int_to_double_def int_to_float_def round32_48 round32_11 round64_48 round64_11
  round64_lat_quotient round64_lat_sum round64_lon_quotient round64_lon_sum
  round32_lat_quotient round32_lat_sum round32_lon_quotient round32_lon_sum
  fp_is_zero_def fp_ge_def

lemmas decoder_evals = memcpy_src_def cstr_def NUL_def first_byte_def copy_time_def Let_def

lemma tokenize_gll_sentence:
  "tokenize gll_sentence = [''GPGLL'', ''4807.038'', ''N'', ''01131.000'', ''E'', ''123519.00'', ''A*0B'' @ CRLF]"
  by code_simp

lemma nmea_GLL_gll_sentence:
  "nmea_GLL g gll_sentence =
     Inr (1, g\<lparr>lat := Finite (1692976987172591 / 35184372088832), NS := CHR ''N'',
               lon := Finite (6483306963568777 / 562949953421312), EW := CHR ''E'',
               lastMeasure := ''123519.00'' @ [CHR 0x00]\<rparr>)"
  unfolding nmea_GLL_def tokenize_gll_sentence
  by (simp add: decoder_evals field_evals fp_evals)

lemma tokenize_gll_bad_ew:
  "tokenize gll_bad_ew = [''GPGLL'', ''4807.038'', ''N'', ''01131.000'', ''X'', ''123519.00'', ''A*16'' @ CRLF]"
  by code_simp

lemma nmea_GLL_gll_bad_ew:
  "nmea_GLL g gll_bad_ew =
     Inr (1, g\<lparr>lat := Finite (1692976987172591 / 35184372088832), NS := CHR ''N'',
               lon := Finite (6483306963568777 / 562949953421312), EW := CHR ''X'',
               lastMeasure := ''123519.00'' @ [CHR 0x00]\<rparr>)"
  unfolding nmea_GLL_def tokenize_gll_bad_ew
  by (simp add: decoder_evals field_evals fp_evals)

lemma tokenize_gll_no_time:
  "tokenize gll_no_time = [''GPGLL'', ''4807.038'', ''N'', ''01131.000'', ''E*69'' @ CRLF]"
  by code_simp

lemma nmea_GLL_gll_no_time:
  "nmea_GLL g gll_no_time =
     Inr (1, g\<lparr>lat := Finite (1692976987172591 / 35184372088832), NS := CHR ''N'',
               lon := Finite (6483306963568777 / 562949953421312), EW := CHR ''E'',
               lastMeasure := clear_time (lastMeasure g)\<rparr>)"
  unfolding nmea_GLL_def tokenize_gll_no_time
  by (simp add: decoder_evals field_evals fp_evals)

lemma tokenize_gga_sentence:
  "tokenize gga_sentence =
     [''GPGGA'', ''123519.00'', ''4807.038'', ''N'', ''01131.000'', ''E'', ''1'', ''08'', ''0.9'',
      ''545.4'', ''M'', ''46.9'', ''M'', [], ''*69'' @ CRLF]"
  by code_simp

lemma nmea_GGA_gga_sentence:
  "nmea_GGA g gga_sentence =
     Inr (1, g\<lparr>lastMeasure := ''123519.00'' @ [CHR 0x00],
               lat := Finite (12613661 / 262144), lon := Finite (3019025 / 262144),
               altitude := Finite (4467917 / 8192), hdop := Finite (7549747 / 8388608),
               satelliteCount := 8, fix_flag := 1\<rparr>)"
  unfolding nmea_GGA_def tokenize_gga_sentence
  by (simp add: decoder_evals field_evals fp_evals)

lemma tokenize_gga_zero_lat:
  "tokenize gga_zero_lat =
     [''GPGGA'', ''123519.00'', ''0000.000'', ''N'', ''01131.000'', ''E'', ''1'', ''08'', ''0.9'',
      ''545.4'', ''M'', ''46.9'', ''M'', [], ''*69'' @ CRLF]"
  by code_simp

lemma nmea_GGA_gga_zero_lat:
  "nmea_GGA g gga_zero_lat = Inr (0, g\<lparr>lastMeasure := ''123519.00'' @ [CHR 0x00]\<rparr>)"
  unfolding nmea_GGA_def tokenize_gga_zero_lat
  by (simp add: decoder_evals field_evals fp_evals round32_def round_fp_def)

lemma tokenize_gga_no_hdop:
  "tokenize gga_no_hdop =
     [''GPGGA'', ''123519.00'', ''4807.038'', ''N'', ''01131.000'', ''E'', ''1'', ''08'', [],
      ''0.0'', ''M'', ''46.9'', ''M'', [], ''*4E'' @ CRLF]"
  by code_simp

lemma nmea_GGA_gga_no_hdop:
  "nmea_GGA g gga_no_hdop =
     Inr (1, g\<lparr>lastMeasure := ''123519.00'' @ [CHR 0x00],
               lat := Finite (12613661 / 262144), lon := Finite (3019025 / 262144),
               altitude := altitude g, hdop := hdop g,
               satelliteCount := 8, fix_flag := 1\<rparr>)"
  unfolding nmea_GGA_def tokenize_gga_no_hdop
  by (simp add: decoder_evals field_evals fp_evals)

lemma tokenize_gsa_sentence:
  "tokenize gsa_sentence =
     [''GPGSA'', ''A'', ''3'', ''04'', ''05'', [], ''09'', ''12'', [], [], ''24'', [], [], [], [],
      ''2.5'', ''1.3'', ''2.1*39'' @ CRLF]"
  by code_simp

lemma nmea_GSA_gsa_sentence:
  "nmea_GSA g gsa_sentence = Inr (1, g\<lparr>satelliteCount := 5, fix_flag := 1\<rparr>)"
  unfolding nmea_GSA_def tokenize_gsa_sentence
  by (simp add: decoder_evals field_evals)

lemma tokenize_gsa_two:
  "tokenize gsa_two =
     [''GPGSA'', ''A'', ''3'', ''04'', ''05'', [], [], [], [], [], [], [], [], [], [],
      ''2.5'', ''1.3'', ''2.1*35'' @ CRLF]"
  by code_simp

lemma nmea_GSA_gsa_two:
  "nmea_GSA g gsa_two = Inr (1, g\<lparr>satelliteCount := 2, fix_flag := 1\<rparr>)"
  unfolding nmea_GSA_def tokenize_gsa_two
  by (simp add: decoder_evals field_evals)

lemma tokenize_gga_short_time:
  "tokenize gga_short_time =
     [''GPGGA'', ''123519'', ''4807.038'', ''N'', ''01131.000'', ''E'', ''1'', ''08'', ''0.9'',
      ''545.4'', ''M'', ''46.9'', ''M'', [], ''*47'' @ CRLF]"
  by code_simp

lemma nmea_GGA_gga_short_time:
  "nmea_GGA g gga_short_time =
     Inr (1, g\<lparr>lastMeasure := clear_time (lastMeasure g),
               lat := Finite (12613661 / 262144), lon := Finite (3019025 / 262144),
               altitude := Finite (4467917 / 8192), hdop := Finite (7549747 / 8388608),
               satelliteCount := 8, fix_flag := 1\<rparr>)"
  unfolding nmea_GGA_def tokenize_gga_short_time
  by (simp add: decoder_evals field_evals fp_evals)

section \<open>Claims about the sentence decoders\<close>

lemma nmea_GGA_success_fields:
  assumes "nmea_GGA g s = Inr (1, g')"
  shows "hdop g' = (if fp_is_zero (strtof (tokenize s ! 8)) then hdop g else strtof (tokenize s ! 8))"
    and "altitude g' = (if fp_is_zero (strtof (tokenize s ! 9)) then altitude g else strtof (tokenize s ! 9))"
  using assms
  by (auto simp: nmea_GGA_def Let_def split: if_splits option.splits prod.splits)

text \<open>
  Claim C8. When \<open>nmea_GGA\<close> succeeds, field 8 and field 9 are parsed by \<open>strtof\<close> and
  written to \<open>hdop\<close> and \<open>altitude\<close>, except that a parsed value of exactly zero, which
  an empty field gives too, leaves the previous \<open>hdop\<close> or \<open>altitude\<close> of the record.
\<close>

theorem nmea_GGA_hdop_altitude:
  "nmea_GGA g s = Inr (1, g') \<Longrightarrow>
     hdop g' = (if strtof (tokenize s ! 8) = Finite 0 then hdop g else strtof (tokenize s ! 8)) \<and>
     altitude g' = (if strtof (tokenize s ! 9) = Finite 0 then altitude g
                    else strtof (tokenize s ! 9)) \<and>
     (tokenize s ! 8 = [] \<longrightarrow> hdop g' = hdop g) \<and>
     (tokenize s ! 9 = [] \<longrightarrow> altitude g' = altitude g)"
  using nmea_GGA_success_fields [of g s g']
  by (auto simp: fp_is_zero_def strtof_empty)

theorem nmea_GGA_hdop_altitude_witness:
  "nmea_GGA gps_prev gga_sentence =
     Inr (1, gps_prev\<lparr>lastMeasure := ''123519.00'' @ [CHR 0x00],
               lat := Finite (12613661 / 262144), lon := Finite (3019025 / 262144),
               altitude := Finite (4467917 / 8192), hdop := Finite (7549747 / 8388608),
               satelliteCount := 8, fix_flag := 1\<rparr>) \<and>
   strtof (tokenize gga_sentence ! 8) = Finite (7549747 / 8388608) \<and>
   strtof (tokenize gga_sentence ! 9) = Finite (4467917 / 8192) \<and>
   nmea_GGA gps_prev gga_no_hdop =
     Inr (1, gps_prev\<lparr>lastMeasure := ''123519.00'' @ [CHR 0x00],
               lat := Finite (12613661 / 262144), lon := Finite (3019025 / 262144),
               altitude := altitude gps_prev, hdop := hdop gps_prev,
               satelliteCount := 8, fix_flag := 1\<rparr>) \<and>
   tokenize gga_no_hdop ! 8 = [] \<and>
   strtof (tokenize gga_no_hdop ! 9) = Finite 0"
proof -
  let ?g1 = "gps_prev\<lparr>lastMeasure := ''123519.00'' @ [CHR 0x00],
               lat := Finite (12613661 / 262144), lon := Finite (3019025 / 262144),
               altitude := Finite (4467917 / 8192), hdop := Finite (7549747 / 8388608),
               satelliteCount := 8, fix_flag := 1\<rparr>"
  let ?g2 = "gps_prev\<lparr>lastMeasure := ''123519.00'' @ [CHR 0x00],
               lat := Finite (12613661 / 262144), lon := Finite (3019025 / 262144),
               altitude := altitude gps_prev, hdop := hdop gps_prev,
               satelliteCount := 8, fix_flag := 1\<rparr>"
  have a: "nmea_GGA gps_prev gga_sentence = Inr (1, ?g1)"
    by (rule nmea_GGA_gga_sentence)
  have b: "nmea_GGA gps_prev gga_no_hdop = Inr (1, ?g2)"
    by (rule nmea_GGA_gga_no_hdop)
  from nmea_GGA_hdop_altitude [OF a]
  have "hdop ?g1 = (if strtof (tokenize gga_sentence ! 8) = Finite 0 then hdop gps_prev
                    else strtof (tokenize gga_sentence ! 8))"
    and "altitude ?g1 = (if strtof (tokenize gga_sentence ! 9) = Finite 0 then altitude gps_prev
                    else strtof (tokenize gga_sentence ! 9))"
    by blast+
  then have c: "strtof (tokenize gga_sentence ! 8) = Finite (7549747 / 8388608)"
    "strtof (tokenize gga_sentence ! 9) = Finite (4467917 / 8192)"
    by (simp_all add: gps_prev_def split: if_splits)
  from nmea_GGA_hdop_altitude [OF b]
  have "altitude ?g2 = (if strtof (tokenize gga_no_hdop ! 9) = Finite 0 then altitude gps_prev
                    else strtof (tokenize gga_no_hdop ! 9))"
    by blast
  then have d: "strtof (tokenize gga_no_hdop ! 9) = Finite 0"
    by (simp add: tokenize_gga_no_hdop strtof_0_0)
  have e: "tokenize gga_no_hdop ! 8 = []"
    by (simp add: tokenize_gga_no_hdop)
  from a b c d e show ?thesis
    by simp
qed

lemma nmea_GLL_success_time:
  assumes "nmea_GLL g s = Inr (1, g')"
  shows "lastMeasure g' =
           (if 5 < length (tokenize s) \<and> 9 \<le> length (tokenize s ! 5) then copy_time (tokenize s ! 5)
            else clear_time (lastMeasure g))"
  using assms
  by (auto simp: nmea_GLL_def Let_def split: if_splits option.splits prod.splits)

lemma nmea_GGA_success_time:
  assumes "nmea_GGA g s = Inr (r, g')"
  shows "lastMeasure g' =
           (if length (tokenize s) < 10 then lastMeasure g
            else if 9 \<le> length (tokenize s ! 1) then copy_time (tokenize s ! 1)
            else clear_time (lastMeasure g))"
  using assms
  by (auto simp: nmea_GGA_def Let_def split: if_splits option.splits prod.splits)

lemma cstr_clear_time: "lm \<noteq> [] \<Longrightarrow> cstr (clear_time lm) = []"
  by (cases lm) (simp_all add: cstr_def clear_time_def)

lemma nmea_GGA_reject_frame:
  assumes "nmea_GGA g s = Inr (0, g')"
  shows "g' = g\<lparr>lastMeasure := lastMeasure g'\<rparr>"
  using assms
  by (auto simp: nmea_GGA_def Let_def split: if_splits option.splits prod.splits)

text \<open>
  Claim C1, at a sentence of fifteen fields whose latitude field is \<open>0000.000\<close>: the computed
  latitude is exactly zero and \<open>nmea_GGA\<close> returns 0, but the record is not left as it
  was: \<open>lastMeasure\<close> held \<open>225444.00\<close> before the call and holds \<open>123519.00\<close>, the time
  of the rejected sentence, after it. The time is written before the latitude is
  validated.
\<close>

theorem nmea_GGA_rejects_after_time_write:
  "10 \<le> length (tokenize gga_zero_lat) \<and>
   gga_degrees (strtol ''00'' 10) (strtof ''00.000'') = Finite 0 \<and>
   nmea_GGA gps_prev gga_zero_lat = Inr (0, gps_prev\<lparr>lastMeasure := ''123519.00'' @ [CHR 0x00]\<rparr>) \<and>
   cstr (lastMeasure gps_prev) = ''225444.00'' \<and>
   cstr (lastMeasure (gps_prev\<lparr>lastMeasure := ''123519.00'' @ [CHR 0x00]\<rparr>)) = ''123519.00''"
  by (simp add: nmea_GGA_gga_zero_lat tokenize_gga_zero_lat gga_degrees_def field_evals
      int_to_float_def round32_def round_fp_def gps_prev_def cstr_def NUL_def)

text \<open>
  Claim C2, at a sentence whose east/west indicator is \<open>X\<close>: \<open>nmea_GLL\<close> returns 1 and
  writes latitude, longitude, time and the indicator \<open>X\<close> itself into the record. The
  decoder reads the indicator and never compares it with \<open>E\<close> or \<open>W\<close>.
\<close>

theorem nmea_GLL_accepts_bad_ew:
  "5 \<le> length (tokenize gll_bad_ew) \<and>
   first_byte (tokenize gll_bad_ew ! 4) = CHR ''X'' \<and>
   nmea_GLL gps0 gll_bad_ew =
     Inr (1, gps0\<lparr>lat := Finite (1692976987172591 / 35184372088832), NS := CHR ''N'',
               lon := Finite (6483306963568777 / 562949953421312), EW := CHR ''X'',
               lastMeasure := ''123519.00'' @ [CHR 0x00]\<rparr>)"
  by (simp add: nmea_GLL_gll_bad_ew tokenize_gll_bad_ew first_byte_def)

text \<open>
  Claim C4 fails as stated: on a sentence of five fields, which has no time field,
  \<open>nmea_GLL\<close> succeeds and the time \<open>225444.00\<close> of the record is gone, its first byte being
  a NUL afterwards.
\<close>

theorem nmea_GLL_clears_time_counterexample:
  "length (tokenize gll_no_time) = 5 \<and>
   cstr (lastMeasure gps_prev) = ''225444.00'' \<and>
   nmea_GLL gps_prev gll_no_time =
     Inr (1, gps_prev\<lparr>lat := Finite (1692976987172591 / 35184372088832), NS := CHR ''N'',
               lon := Finite (6483306963568777 / 562949953421312), EW := CHR ''E'',
               lastMeasure := CHR 0x00 # ''25444.00'' @ [CHR 0x00]\<rparr>) \<and>
   cstr (CHR 0x00 # ''25444.00'' @ [CHR 0x00]) = []"
  by (simp add: nmea_GLL_gll_no_time tokenize_gll_no_time gps_prev_def cstr_def NUL_def
      clear_time_def)

text \<open>
  Claim C4, amended. When \<open>nmea_GLL\<close> succeeds on a sentence whose time field 5 is absent or
  shorter than nine characters, it clears \<open>lastMeasure\<close>: a NUL goes into the first byte,
  so the time reads as the empty string. \<open>nmea_GGA\<close> does the same for its time field 1.
\<close>

theorem short_time_field_clears:
  "(nmea_GLL g s = Inr (1, g') \<and> (length (tokenize s) \<le> 5 \<or> length (tokenize s ! 5) < 9) \<longrightarrow>
      lastMeasure g' = clear_time (lastMeasure g) \<and>
      (lastMeasure g \<noteq> [] \<longrightarrow> cstr (lastMeasure g') = [])) \<and>
   (nmea_GGA g s = Inr (1, g') \<and> length (tokenize s ! 1) < 9 \<longrightarrow>
      lastMeasure g' = clear_time (lastMeasure g) \<and>
      (lastMeasure g \<noteq> [] \<longrightarrow> cstr (lastMeasure g') = []))"
proof (intro conjI impI)
  assume a: "nmea_GLL g s = Inr (1, g') \<and> (length (tokenize s) \<le> 5 \<or> length (tokenize s ! 5) < 9)"
  then show l: "lastMeasure g' = clear_time (lastMeasure g)"
    using nmea_GLL_success_time [of g s g'] by auto
  show "cstr (lastMeasure g') = []" if "lastMeasure g \<noteq> []"
    unfolding l using that by (rule cstr_clear_time)
next
  assume a: "nmea_GGA g s = Inr (1, g') \<and> length (tokenize s ! 1) < 9"
  then have "10 \<le> length (tokenize s)"
    by (auto simp: nmea_GGA_def Let_def split: if_splits)
  with a show l: "lastMeasure g' = clear_time (lastMeasure g)"
    using nmea_GGA_success_time [of g s 1 g'] by auto
  show "cstr (lastMeasure g') = []" if "lastMeasure g \<noteq> []"
    unfolding l using that by (rule cstr_clear_time)
qed

theorem short_time_field_clears_witness:
  "nmea_GLL gps_prev gll_no_time =
     Inr (1, gps_prev\<lparr>lat := Finite (1692976987172591 / 35184372088832), NS := CHR ''N'',
               lon := Finite (6483306963568777 / 562949953421312), EW := CHR ''E'',
               lastMeasure := clear_time (lastMeasure gps_prev)\<rparr>) \<and>
   length (tokenize gll_no_time) \<le> 5 \<and>
   lastMeasure gps_prev \<noteq> [] \<and>
   cstr (clear_time (lastMeasure gps_prev)) = [] \<and>
   nmea_GGA gps_prev gga_short_time =
     Inr (1, gps_prev\<lparr>lastMeasure := clear_time (lastMeasure gps_prev),
               lat := Finite (12613661 / 262144), lon := Finite (3019025 / 262144),
               altitude := Finite (4467917 / 8192), hdop := Finite (7549747 / 8388608),
               satelliteCount := 8, fix_flag := 1\<rparr>) \<and>
   length (tokenize gga_short_time ! 1) < 9"
proof -
  let ?gA = "gps_prev\<lparr>lat := Finite (1692976987172591 / 35184372088832), NS := CHR ''N'',
               lon := Finite (6483306963568777 / 562949953421312), EW := CHR ''E'',
               lastMeasure := clear_time (lastMeasure gps_prev)\<rparr>"
  let ?gB = "gps_prev\<lparr>lastMeasure := clear_time (lastMeasure gps_prev),
               lat := Finite (12613661 / 262144), lon := Finite (3019025 / 262144),
               altitude := Finite (4467917 / 8192), hdop := Finite (7549747 / 8388608),
               satelliteCount := 8, fix_flag := 1\<rparr>"
  have a: "nmea_GLL gps_prev gll_no_time = Inr (1, ?gA)"
    by (rule nmea_GLL_gll_no_time)
  have b: "length (tokenize gll_no_time) \<le> 5"
    by (simp add: tokenize_gll_no_time)
  have c: "lastMeasure gps_prev \<noteq> []"
    by (simp add: gps_prev_def)
  have d: "nmea_GGA gps_prev gga_short_time = Inr (1, ?gB)"
    by (rule nmea_GGA_gga_short_time)
  have e: "length (tokenize gga_short_time ! 1) < 9"
    by (simp add: tokenize_gga_short_time)
  from short_time_field_clears [of gps_prev gll_no_time ?gA] a b c
  have "cstr (lastMeasure ?gA) = []"
    by blast
  then have f: "cstr (clear_time (lastMeasure gps_prev)) = []"
    by simp
  from short_time_field_clears [of gps_prev gga_short_time ?gB] d e
  have "lastMeasure ?gB = clear_time (lastMeasure gps_prev)"
    by blast
  with a b c d e f show ?thesis
    by simp
qed

section \<open>Claims about the batch dispatcher\<close>

lemma nmea_GLL_fault: "nmea_GLL g s = Inl f \<Longrightarrow> f = OutOfBoundsRead"
  by (auto simp: nmea_GLL_def Let_def split: if_splits option.splits prod.splits)

lemma nmea_GSA_fault: "nmea_GSA g s \<noteq> Inl f"
  by (auto simp: nmea_GSA_def Let_def split: if_splits)

lemma nmea_GGA_fault: "nmea_GGA g s = Inl f \<Longrightarrow> f = OutOfBoundsRead"
  by (auto simp: nmea_GGA_def Let_def split: if_splits option.splits prod.splits)

lemma nmea_GSV_fault: "nmea_GSV g s \<noteq> Inl f"
  by (auto simp: nmea_GSV_def Let_def split: if_splits)

lemma map_sum_Inl_iff: "map_sum id h x = Inl f \<longleftrightarrow> x = Inl f"
  by (cases x) simp_all

lemma dispatch_fault: "dispatch g s = Inl f \<Longrightarrow> f = OutOfBoundsRead"
  using nmea_GLL_fault [of g s f] nmea_GSA_fault [of g s f] nmea_GGA_fault [of g s f]
    nmea_GSV_fault [of g s f]
  by (simp add: dispatch_def map_sum_Inl_iff split: if_splits)

lemma dispatch_seq_fault: "dispatch_seq g data = Inl f \<Longrightarrow> f = OutOfBoundsRead"
proof (induction data arbitrary: g)
  case Nil
  then show ?case by simp
next
  case (Cons s rest)
  show ?case
  proof (cases "dispatch g s")
    case (Inl f')
    with Cons.prems have "f' = f" by simp
    with Inl show ?thesis by (simp add: dispatch_fault)
  next
    case (Inr g')
    with Cons.prems have "dispatch_seq g' rest = Inl f" by simp
    then show ?thesis by (rule Cons.IH)
  qed
qed

lemma candidates_sixteen: "candidates (concat (replicate 16 ''$A'')) = replicate 16 ''A''"
  by code_simp

lemma candidates_fifteen: "candidates (concat (replicate 15 ''$A'')) = replicate 15 ''A''"
  by code_simp

text \<open>
  Claim C9. \<open>gpsParse\<close> stores the candidates at the indices 0, 1, ... of \<open>data\<close> and
  never compares the index with 15. A buffer of at most fifteen candidates is split
  with every store in bounds, and no store beyond the array happens in the call; a
  buffer of more than fifteen candidates reaches the store at index 15, beyond the
  array.
\<close>

theorem gpsParse_data_bound:
  "(length (candidates buffer) \<le> 15 \<longrightarrow>
      (\<exists>buffer'. split_loop buffer 0 [] = Inr (candidates buffer, buffer')) \<and>
      gpsParse gps_data buffer \<noteq> Inl OutOfBoundsWrite) \<and>
   (15 < length (candidates buffer) \<longrightarrow>
      split_loop buffer 0 [] = Inl OutOfBoundsWrite \<and>
      gpsParse gps_data buffer = Inl OutOfBoundsWrite)"
proof (intro conjI impI)
  assume le: "length (candidates buffer) \<le> 15"
  from gpsParse_ok [OF le, of gps_data] obtain b' where
    sl: "split_loop buffer 0 [] = Inr (candidates buffer, b')"
    and gp: "gpsParse gps_data buffer =
               (case dispatch_seq gps_data (candidates buffer) of
                  Inl f \<Rightarrow> Inl f | Inr g' \<Rightarrow> Inr (g', b'))"
    by blast
  from sl show "\<exists>buffer'. split_loop buffer 0 [] = Inr (candidates buffer, buffer')" ..
  show "gpsParse gps_data buffer \<noteq> Inl OutOfBoundsWrite"
  proof
    assume "gpsParse gps_data buffer = Inl OutOfBoundsWrite"
    with gp have "dispatch_seq gps_data (candidates buffer) = Inl OutOfBoundsWrite"
      by (simp split: sum.splits)
    from dispatch_seq_fault [OF this] show False by simp
  qed
next
  assume gt: "15 < length (candidates buffer)"
  then show "split_loop buffer 0 [] = Inl OutOfBoundsWrite"
    by (intro split_loop_overflow [where toks = "candidates buffer"]) (simp_all add: candidates_def)
  from gt show "gpsParse gps_data buffer = Inl OutOfBoundsWrite"
    by (rule gpsParse_overflow)
qed

theorem gpsParse_data_bound_witness:
  "length (candidates (concat (replicate 16 ''$A''))) = 16 \<and>
   gpsParse gps0 (concat (replicate 16 ''$A'')) = Inl OutOfBoundsWrite \<and>
   length (candidates (concat (replicate 15 ''$A''))) = 15 \<and>
   gpsParse gps0 (concat (replicate 15 ''$A'')) \<noteq> Inl OutOfBoundsWrite"
proof -
  have a: "length (candidates (concat (replicate 16 ''$A''))) = 16"
    unfolding candidates_sixteen by simp
  have b: "length (candidates (concat (replicate 15 ''$A''))) = 15"
    unfolding candidates_fifteen by simp
  from gpsParse_data_bound [of "concat (replicate 16 ''$A'')" gps0] a
  have c: "gpsParse gps0 (concat (replicate 16 ''$A'')) = Inl OutOfBoundsWrite"
    by simp
  from gpsParse_data_bound [of "concat (replicate 15 ''$A'')" gps0] b
  have d: "gpsParse gps0 (concat (replicate 15 ''$A'')) \<noteq> Inl OutOfBoundsWrite"
    by simp
  from a b c d show ?thesis by simp
qed

lemma filter_gll_sentence:
  "strstr gll_sentence [CHR 0x0D, CHR 0x0A] \<noteq> None \<and> getChecksum gll_sentence = 1 \<and>
   strstr gll_sentence ''GLL'' \<noteq> None"
  by code_simp

lemma filter_gsa_sentence:
  "strstr gsa_sentence [CHR 0x0D, CHR 0x0A] \<noteq> None \<and> getChecksum gsa_sentence = 1 \<and>
   strstr gsa_sentence ''GLL'' = None \<and> strstr gsa_sentence ''GSA'' \<noteq> None"
  by code_simp

lemma filter_gsa_two:
  "strstr gsa_two [CHR 0x0D, CHR 0x0A] \<noteq> None \<and> getChecksum gsa_two = 1 \<and>
   strstr gsa_two ''GLL'' = None \<and> strstr gsa_two ''GSA'' \<noteq> None"
  by code_simp

lemma filter_gga_bad_checksum:
  "strstr gga_bad_checksum [CHR 0x0D, CHR 0x0A] \<noteq> None \<and> getChecksum gga_bad_checksum = 0"
  by code_simp

lemma filter_gga_sentence:
  "strstr gga_sentence [CHR 0x0D, CHR 0x0A] \<noteq> None \<and> getChecksum gga_sentence = 1 \<and>
   strstr gga_sentence ''GLL'' = None \<and> strstr gga_sentence ''GSA'' = None \<and>
   strstr gga_sentence ''GGA'' \<noteq> None"
  by code_simp

lemma dispatch_gll_sentence:
  "dispatch g gll_sentence =
     Inr (g\<lparr>lat := Finite (1692976987172591 / 35184372088832), NS := CHR ''N'',
             lon := Finite (6483306963568777 / 562949953421312), EW := CHR ''E'',
             lastMeasure := ''123519.00'' @ [CHR 0x00]\<rparr>)"
  using filter_gll_sentence by (simp add: dispatch_def nmea_GLL_gll_sentence)

lemma dispatch_gsa_sentence:
  "dispatch g gsa_sentence = Inr (g\<lparr>satelliteCount := 5, fix_flag := 1\<rparr>)"
  using filter_gsa_sentence by (simp add: dispatch_def nmea_GSA_gsa_sentence)

lemma dispatch_gsa_two:
  "dispatch g gsa_two = Inr (g\<lparr>satelliteCount := 2, fix_flag := 1\<rparr>)"
  using filter_gsa_two by (simp add: dispatch_def nmea_GSA_gsa_two)

lemma dispatch_gga_bad_checksum: "dispatch g gga_bad_checksum = Inr g"
  using filter_gga_bad_checksum by (simp add: dispatch_def)

lemma dispatch_gga_sentence:
  "dispatch g gga_sentence =
     Inr (g\<lparr>lastMeasure := ''123519.00'' @ [CHR 0x00],
               lat := Finite (12613661 / 262144), lon := Finite (3019025 / 262144),
               altitude := Finite (4467917 / 8192), hdop := Finite (7549747 / 8388608),
               satelliteCount := 8, fix_flag := 1\<rparr>)"
  using filter_gga_sentence by (simp add: dispatch_def nmea_GGA_gga_sentence)

lemma split_single_gll:
  "split_loop (CHR ''$'' # gll_sentence) 0 [] = Inr ([gll_sentence], CHR ''$'' # gll_sentence)"
  by code_simp

lemma split_two_gsa:
  "split_loop (CHR ''$'' # gsa_sentence @ CHR ''$'' # gsa_two) 0 [] =
     Inr ([gsa_sentence, gsa_two], CHR ''$'' # gsa_sentence @ CHR 0x00 # gsa_two)"
  by code_simp

lemma split_after_two_gsa:
  "split_loop (CHR ''$'' # gsa_sentence @ CHR 0x00 # gsa_two) 0 [] =
     Inr ([gsa_sentence], CHR ''$'' # gsa_sentence @ CHR 0x00 # gsa_two)"
  by code_simp

lemma split_three:
  "split_loop (CHR ''$'' # gsa_sentence @ CHR ''$'' # gga_bad_checksum @ CHR ''$'' # gll_sentence) 0 [] =
     Inr ([gsa_sentence, gga_bad_checksum, gll_sentence],
          CHR ''$'' # gsa_sentence @ CHR 0x00 # gga_bad_checksum @ CHR 0x00 # gll_sentence)"
  by code_simp

lemma gpsParse_eval:
  assumes "split_loop b 0 [] = Inr (data, b')" "dispatch_seq g data = Inr g'"
  shows "gpsParse g b = Inr (g', b')"
  using assms dispatch_from_seq [of 0 data g] by (simp add: gpsParse_def)

lemma gpsParse_single_gll:
  "gpsParse g (CHR ''$'' # gll_sentence) =
     Inr (g\<lparr>lat := Finite (1692976987172591 / 35184372088832), NS := CHR ''N'',
             lon := Finite (6483306963568777 / 562949953421312), EW := CHR ''E'',
             lastMeasure := ''123519.00'' @ [CHR 0x00]\<rparr>, CHR ''$'' # gll_sentence)"
  by (rule gpsParse_eval [OF split_single_gll]) (simp add: dispatch_gll_sentence)

lemma gpsParse_two_gsa:
  "gpsParse g (CHR ''$'' # gsa_sentence @ CHR ''$'' # gsa_two) =
     Inr (g\<lparr>satelliteCount := 2, fix_flag := 1\<rparr>, CHR ''$'' # gsa_sentence @ CHR 0x00 # gsa_two)"
  by (rule gpsParse_eval [OF split_two_gsa]) (simp add: dispatch_gsa_sentence dispatch_gsa_two)

lemma gpsParse_after_two_gsa:
  "gpsParse g (CHR ''$'' # gsa_sentence @ CHR 0x00 # gsa_two) =
     Inr (g\<lparr>satelliteCount := 5, fix_flag := 1\<rparr>, CHR ''$'' # gsa_sentence @ CHR 0x00 # gsa_two)"
  by (rule gpsParse_eval [OF split_after_two_gsa]) (simp add: dispatch_gsa_sentence)

lemma gpsParse_three:
  "gpsParse g (CHR ''$'' # gsa_sentence @ CHR ''$'' # gga_bad_checksum @ CHR ''$'' # gll_sentence) =
     Inr (g\<lparr>satelliteCount := 5, fix_flag := 1,
             lat := Finite (1692976987172591 / 35184372088832), NS := CHR ''N'',
             lon := Finite (6483306963568777 / 562949953421312), EW := CHR ''E'',
             lastMeasure := ''123519.00'' @ [CHR 0x00]\<rparr>,
          CHR ''$'' # gsa_sentence @ CHR 0x00 # gga_bad_checksum @ CHR 0x00 # gll_sentence)"
  by (rule gpsParse_eval [OF split_three])
    (simp add: dispatch_gsa_sentence dispatch_gga_bad_checksum dispatch_gll_sentence)

text \<open>
  Claim C10 fails as stated: the buffer that holds one sentence after its \<open>$\<close> contains a
  \<open>$\<close>, and \<open>gpsParse\<close> hands it back byte for byte. \<open>strtok\<close> skips the delimiters in
  front of a token and overwrites only the delimiter that ends one.
\<close>

theorem gpsParse_keeps_leading_dollar:
  "CHR ''$'' \<in> set (CHR ''$'' # gll_sentence) \<and>
   gpsParse gps0 (CHR ''$'' # gll_sentence) =
     Inr (gps0\<lparr>lat := Finite (1692976987172591 / 35184372088832), NS := CHR ''N'',
             lon := Finite (6483306963568777 / 562949953421312), EW := CHR ''E'',
             lastMeasure := ''123519.00'' @ [CHR 0x00]\<rparr>, CHR ''$'' # gll_sentence)"
  by (simp add: gpsParse_single_gll)

text \<open>
  Claim C10, amended. \<open>gpsParse\<close> keeps the length of the buffer; every byte it changes
  was a \<open>$\<close> and is a NUL afterwards; and it changes the buffer exactly when a \<open>$\<close> occurs
  in the buffer's string after the first byte other than \<open>$\<close>.
\<close>

theorem gpsParse_buffer_change:
  assumes "gpsParse g b = Inr (g', b')"
  shows "length b' = length b \<and>
         (\<forall>i<length b. b' ! i = b ! i \<or> (b ! i = CHR ''$'' \<and> b' ! i = NUL)) \<and>
         (b' \<noteq> b \<longleftrightarrow> CHR ''$'' \<in> set (dropWhile (\<lambda>c. c = CHR ''$'') (cstr b)))"
proof -
  have le: "length (candidates b) \<le> 15"
  proof (rule ccontr)
    assume "\<not> length (candidates b) \<le> 15"
    then have "gpsParse g b = Inl OutOfBoundsWrite"
      by (intro gpsParse_overflow) simp
    with assms show False by simp
  qed
  from gpsParse_ok [OF le, of g] obtain b'' where
    gp: "gpsParse g b = (case dispatch_seq g (candidates b) of
                           Inl f \<Rightarrow> Inl f | Inr g' \<Rightarrow> Inr (g', b''))"
    and rest: "length b'' = length b"
      "\<forall>i<length b. b'' ! i = b ! i \<or> (b ! i = CHR ''$'' \<and> b'' ! i = NUL)"
      "b'' \<noteq> b \<longleftrightarrow> CHR ''$'' \<in> set (dropWhile (\<lambda>c. c = CHR ''$'') (cstr b))"
    by blast
  from gp assms have "b'' = b'"
    by (simp split: sum.splits)
  with rest show ?thesis
    by simp
qed

theorem gpsParse_buffer_change_witness:
  "gpsParse gps0 (CHR ''$'' # gsa_sentence @ CHR ''$'' # gsa_two) =
     Inr (gps0\<lparr>satelliteCount := 2, fix_flag := 1\<rparr>, CHR ''$'' # gsa_sentence @ CHR 0x00 # gsa_two) \<and>
   CHR ''$'' # gsa_sentence @ CHR 0x00 # gsa_two \<noteq> CHR ''$'' # gsa_sentence @ CHR ''$'' # gsa_two \<and>
   CHR ''$'' \<in> set (dropWhile (\<lambda>c. c = CHR ''$'') (cstr (CHR ''$'' # gsa_sentence @ CHR ''$'' # gsa_two))) \<and>
   gpsParse gps0 (CHR ''$'' # gll_sentence) =
     Inr (gps0\<lparr>lat := Finite (1692976987172591 / 35184372088832), NS := CHR ''N'',
             lon := Finite (6483306963568777 / 562949953421312), EW := CHR ''E'',
             lastMeasure := ''123519.00'' @ [CHR 0x00]\<rparr>, CHR ''$'' # gll_sentence) \<and>
   CHR ''$'' \<notin> set (dropWhile (\<lambda>c. c = CHR ''$'') (cstr (CHR ''$'' # gll_sentence)))"
proof -
  have a: "gpsParse gps0 (CHR ''$'' # gsa_sentence @ CHR ''$'' # gsa_two) =
     Inr (gps0\<lparr>satelliteCount := 2, fix_flag := 1\<rparr>, CHR ''$'' # gsa_sentence @ CHR 0x00 # gsa_two)"
    by (rule gpsParse_two_gsa)
  have b: "CHR ''$'' # gsa_sentence @ CHR 0x00 # gsa_two \<noteq> CHR ''$'' # gsa_sentence @ CHR ''$'' # gsa_two"
    by simp
  have c: "gpsParse gps0 (CHR ''$'' # gll_sentence) =
     Inr (gps0\<lparr>lat := Finite (1692976987172591 / 35184372088832), NS := CHR ''N'',
             lon := Finite (6483306963568777 / 562949953421312), EW := CHR ''E'',
             lastMeasure := ''123519.00'' @ [CHR 0x00]\<rparr>, CHR ''$'' # gll_sentence)"
    by (rule gpsParse_single_gll)
  from gpsParse_buffer_change [OF a] b
  have d: "CHR ''$'' \<in> set (dropWhile (\<lambda>c. c = CHR ''$'') (cstr (CHR ''$'' # gsa_sentence @ CHR ''$'' # gsa_two)))"
    by blast
  from gpsParse_buffer_change [OF c]
  have e: "CHR ''$'' \<notin> set (dropWhile (\<lambda>c. c = CHR ''$'') (cstr (CHR ''$'' # gll_sentence)))"
    by blast
  from a b c d e show ?thesis
    by blast
qed

text \<open>
  Claim C3 fails as stated: on a buffer of two well-formed GSA sentences the first pass
  leaves the satellite count of the second sentence, 2, and the buffer with a NUL in place
  of the second \<open>$\<close>; the second pass on that same buffer sees the first sentence only
  and leaves the satellite count 5.
\<close>

theorem gpsParse_twice_counterexample:
  "gpsParse gps0 (CHR ''$'' # gsa_sentence @ CHR ''$'' # gsa_two) =
     Inr (gps0\<lparr>satelliteCount := 2, fix_flag := 1\<rparr>, CHR ''$'' # gsa_sentence @ CHR 0x00 # gsa_two) \<and>
   gpsParse (gps0\<lparr>satelliteCount := 2, fix_flag := 1\<rparr>) (CHR ''$'' # gsa_sentence @ CHR 0x00 # gsa_two) =
     Inr (gps0\<lparr>satelliteCount := 5, fix_flag := 1\<rparr>, CHR ''$'' # gsa_sentence @ CHR 0x00 # gsa_two) \<and>
   satelliteCount (gps0\<lparr>satelliteCount := 2, fix_flag := 1\<rparr>) = 2 \<and>
   satelliteCount (gps0\<lparr>satelliteCount := 5, fix_flag := 1\<rparr>) = 5"
  using gpsParse_after_two_gsa [of "gps0\<lparr>satelliteCount := 2, fix_flag := 1\<rparr>"]
  by (simp add: gpsParse_two_gsa)



















section \<open>Repeating a dispatch pass\<close>

lemma length_clear_time: "length (clear_time lm) = length lm"
  by (simp add: clear_time_def)

lemma length_copy_time: "9 \<le> length v \<Longrightarrow> length (copy_time v) = 10"
  by (simp add: copy_time_def)

lemma hd_clear_time: "length lm = 10 \<Longrightarrow> hd (clear_time lm) = NUL"
  by (cases lm) (simp_all add: clear_time_def)

lemma tl_clear_time: "tl (clear_time lm) = tl lm"
  by (cases lm) (simp_all add: clear_time_def)

lemmas time_simps = length_clear_time length_copy_time hd_clear_time tl_clear_time

lemmas steady_leaf = steady_dec_def step_rel_def field_rel_def wf_gps_def time_simps

lemma steady_dec_if:
  "(c \<Longrightarrow> steady_dec a) \<Longrightarrow> (\<not> c \<Longrightarrow> steady_dec b) \<Longrightarrow> steady_dec (\<lambda>g. if c then a g else b g)"
  by (cases c) simp_all

lemma steady_dec_option:
  "(m = None \<Longrightarrow> steady_dec n) \<Longrightarrow> (\<And>x. m = Some x \<Longrightarrow> steady_dec (f x)) \<Longrightarrow>
     steady_dec (\<lambda>g. case m of None \<Rightarrow> n g | Some x \<Rightarrow> f x g)"
  by (cases m) simp_all

lemma steady_dec_Inl: "steady_dec (\<lambda>g. Inl f)"
  by (simp add: steady_dec_def)

lemma steady_dec_same: "steady_dec (\<lambda>g. Inr (r, g))"
  by (simp add: steady_leaf)

lemma nmea_GLL_steady: "steady_dec (\<lambda>g. nmea_GLL g s)"
  unfolding nmea_GLL_def Let_def prod.case
  apply (intro steady_dec_if steady_dec_option steady_dec_Inl steady_dec_same)
  apply (auto simp: steady_leaf)
  done

lemma nmea_GSA_steady: "steady_dec (\<lambda>g. nmea_GSA g s)"
  unfolding nmea_GSA_def Let_def
  apply (intro steady_dec_if steady_dec_same)
  apply (auto simp: steady_leaf)
  done

lemma nmea_GSV_steady: "steady_dec (\<lambda>g. nmea_GSV g s)"
  unfolding nmea_GSV_def Let_def
  by (intro steady_dec_if steady_dec_same)

lemma nmea_GGA_steady: "steady_dec (\<lambda>g. nmea_GGA g s)"
  unfolding nmea_GGA_def Let_def prod.case
  apply (intro steady_dec_if steady_dec_option steady_dec_Inl steady_dec_same)
  apply (auto simp: steady_leaf)
  done

lemma steady_if:
  "(c \<Longrightarrow> steady a) \<Longrightarrow> (\<not> c \<Longrightarrow> steady b) \<Longrightarrow> steady (\<lambda>g. if c then a g else b g)"
  by (cases c) simp_all

lemma steady_same: "steady (\<lambda>g. Inr g)"
  by (simp add: steady_def step_rel_def field_rel_def)

lemma steady_of_dec:
  assumes "steady_dec d"
  shows "steady (\<lambda>g. map_sum id snd (d g))"
  unfolding steady_def
proof (intro allI impI)
  fix g h g'
  assume a: "wf_gps g \<and> wf_gps h \<and> map_sum id snd (d g) = Inr g'"
  then obtain r where "d g = Inr (r, g')"
    by (cases "d g") auto
  with assms a obtain h' where "d h = Inr (r, h')" "step_rel g g' h h'"
    unfolding steady_dec_def by blast
  then show "\<exists>h'. map_sum id snd (d h) = Inr h' \<and> step_rel g g' h h'"
    by simp
qed

lemma dispatch_steady: "steady (\<lambda>g. dispatch g s)"
  unfolding dispatch_def
  by (intro steady_if steady_same steady_of_dec nmea_GLL_steady nmea_GSA_steady nmea_GGA_steady
      nmea_GSV_steady)

lemma field_rel_trans:
  "field_rel field g g1 h h1 \<Longrightarrow> field_rel field g1 g2 h1 h2 \<Longrightarrow> field_rel field g g2 h h2"
  by (auto simp: field_rel_def)

lemma step_rel_trans:
  assumes "step_rel g g1 h h1" "step_rel g1 g2 h1 h2"
  shows "step_rel g g2 h h2"
  using assms unfolding step_rel_def
  by (meson field_rel_trans)

lemma steady_bind:
  assumes "steady d" "steady e"
  shows "steady (\<lambda>g. case d g of Inl f \<Rightarrow> Inl f | Inr g' \<Rightarrow> e g')"
  unfolding steady_def
proof (intro allI impI)
  fix g h g2
  assume a: "wf_gps g \<and> wf_gps h \<and> (case d g of Inl f \<Rightarrow> Inl f | Inr g' \<Rightarrow> e g') = Inr g2"
  then obtain g1 where g1: "d g = Inr g1" "e g1 = Inr g2"
    by (cases "d g") auto
  with assms(1) a obtain h1 where h1: "d h = Inr h1" "step_rel g g1 h h1"
    unfolding steady_def by blast
  then have "wf_gps g1 \<and> wf_gps h1"
    by (simp add: step_rel_def)
  with assms(2) g1(2) obtain h2 where h2: "e h1 = Inr h2" "step_rel g1 g2 h1 h2"
    unfolding steady_def by blast
  from h1(2) h2(2) have "step_rel g g2 h h2"
    by (rule step_rel_trans)
  with h1(1) h2(1) show "\<exists>h'. (case d h of Inl f \<Rightarrow> Inl f | Inr g' \<Rightarrow> e g') = Inr h' \<and> step_rel g g2 h h'"
    by simp
qed

lemma dispatch_seq_steady: "steady (\<lambda>g. dispatch_seq g data)"
proof (induction data)
  case Nil
  show ?case by (simp add: steady_same)
next
  case (Cons s rest)
  from steady_bind [OF dispatch_steady [of s] Cons.IH] show ?case
    by simp
qed

lemma field_rel_self: "field_rel field g g' g' h' \<Longrightarrow> field h' = field g'"
  by (auto simp: field_rel_def)

lemma steady_idem:
  assumes "steady d" "wf_gps g" "d g = Inr g'"
  shows "d g' = Inr g'"
proof -
  from assms obtain k where "d g = Inr k" "step_rel g g' g k"
    unfolding steady_def by blast
  then have w: "wf_gps g'"
    by (simp add: step_rel_def)
  with assms obtain h' where h: "d g' = Inr h'" and sr: "step_rel g g' g' h'"
    unfolding steady_def by blast
  from sr have r: "field_rel lat g g' g' h'" "field_rel NS g g' g' h'" "field_rel lon g g' g' h'"
    "field_rel EW g g' g' h'" "field_rel altitude g g' g' h'" "field_rel hdop g g' g' h'"
    "field_rel satelliteCount g g' g' h'" "field_rel fix_flag g g' g' h'"
    "field_rel (\<lambda>g. hd (lastMeasure g)) g g' g' h'"
    "field_rel (\<lambda>g. tl (lastMeasure g)) g g' g' h'"
    by (simp_all add: step_rel_def)
  note f = r [THEN field_rel_self]
  from sr have "wf_gps h'" "wf_gps g'"
    by (simp_all add: step_rel_def)
  then have "lastMeasure h' \<noteq> []" "lastMeasure g' \<noteq> []"
    by (auto simp: wf_gps_def)
  with f(9,10) have "lastMeasure h' = lastMeasure g'"
    by (metis list.collapse)
  with f have "h' = g'"
    by (intro BN220_GPS.equality) simp_all
  with h show ?thesis by simp
qed

lemma gpsParse_split:
  assumes "split_loop b 0 [] = Inr (data, b')"
  shows "gpsParse h b = (case dispatch_seq h data of Inl f \<Rightarrow> Inl f | Inr h' \<Rightarrow> Inr (h', b'))"
  using assms dispatch_from_seq [of 0 data h] by (simp add: gpsParse_def)

text \<open>
  Claim C3, amended. When \<open>gpsParse\<close> has returned from a buffer, running it again from
  the record it left, on a buffer that holds the bytes the first buffer held before the
  first pass, returns the same record and the same buffer: no field changes any more.
  This holds for every buffer and every record whose \<open>lastMeasure\<close> has its ten bytes.
\<close>

theorem gpsParse_same_bytes_idempotent:
  assumes "length (lastMeasure g) = 10" "gpsParse g b = Inr (g1, b1)"
  shows "gpsParse g1 b = Inr (g1, b1)"
proof -
  from assms(2) obtain data b' where sl: "split_loop b 0 [] = Inr (data, b')"
    by (cases "split_loop b 0 []") (auto simp: gpsParse_def)
  from assms(2) have ds: "dispatch_seq g data = Inr g1" and b': "b' = b1"
    unfolding gpsParse_split [OF sl] by (simp_all split: sum.splits)
  from assms(1) have "wf_gps g"
    by (simp add: wf_gps_def)
  with dispatch_seq_steady have "dispatch_seq g1 data = Inr g1"
    using ds by (rule steady_idem)
  then show ?thesis
    unfolding gpsParse_split [OF sl] b' by simp
qed

theorem gpsParse_same_bytes_idempotent_witness:
  "length (lastMeasure gps0) = 10 \<and>
   gpsParse gps0 (CHR ''$'' # gsa_sentence @ CHR ''$'' # gsa_two) =
     Inr (gps0\<lparr>satelliteCount := 2, fix_flag := 1\<rparr>, CHR ''$'' # gsa_sentence @ CHR 0x00 # gsa_two) \<and>
   gpsParse (gps0\<lparr>satelliteCount := 2, fix_flag := 1\<rparr>) (CHR ''$'' # gsa_sentence @ CHR ''$'' # gsa_two) =
     Inr (gps0\<lparr>satelliteCount := 2, fix_flag := 1\<rparr>, CHR ''$'' # gsa_sentence @ CHR 0x00 # gsa_two)"
proof -
  have a: "length (lastMeasure gps0) = 10"
    by (simp add: gps0_def)
  have b: "gpsParse gps0 (CHR ''$'' # gsa_sentence @ CHR ''$'' # gsa_two) =
     Inr (gps0\<lparr>satelliteCount := 2, fix_flag := 1\<rparr>, CHR ''$'' # gsa_sentence @ CHR 0x00 # gsa_two)"
    by (rule gpsParse_two_gsa)
  from gpsParse_same_bytes_idempotent [OF a b] a b show ?thesis
    by blast
qed

section \<open>The degree values of the two decoders\<close>

lemma pow2_less_imp_less: "pow2 a < pow2 b \<Longrightarrow> a < b"
proof (rule ccontr)
  assume "pow2 a < pow2 b" "\<not> a < b"
  then have "pow2 b \<le> pow2 a" by (intro pow2_mono) simp
  with \<open>pow2 a < pow2 b\<close> show False by simp
qed

lemma pow2_diff: "pow2 k = pow2 (k - u) * pow2 u"
  using pow2_add [of "k - u" u] by simp

lemma round_fp_exact:
  assumes x: "x = of_int m * pow2 k" and m: "\<bar>m\<bar> < 2 ^ p" and k: "emin - int p + 1 \<le> k"
    and r: "\<bar>x\<bar> < pow2 (emax + 1)"
  shows "round_fp p emin emax x = Finite x"
proof (cases "x = 0")
  case True
  then show ?thesis by (simp add: round_fp_def)
next
  case False
  define e where "e = ilog2 \<bar>x\<bar>"
  have b: "pow2 e \<le> \<bar>x\<bar>"
    using ilog2_bounds [of "\<bar>x\<bar>"] False by (simp add: e_def)
  have "(of_int \<bar>m\<bar> :: rat) < of_int (2 ^ p)"
    using m by (simp only: of_int_less_iff)
  then have mp: "(of_int \<bar>m\<bar> :: rat) < 2 ^ p"
    by simp
  have "\<bar>x\<bar> = of_int \<bar>m\<bar> * pow2 k"
    unfolding x using pow2_pos [of k] by (simp add: abs_mult)
  also have "\<dots> < 2 ^ p * pow2 k"
    using mp pow2_pos [of k] by (rule mult_strict_right_mono)
  also have "2 ^ p * pow2 k = pow2 (int p + k)"
    by (simp add: pow2_add pow2_nat)
  finally have "\<bar>x\<bar> < pow2 (int p + k)" .
  with b have "pow2 e < pow2 (int p + k)"
    by simp
  then have ek: "e < int p + k"
    by (rule pow2_less_imp_less)
  define u where "u = max e emin - int p + 1"
  have uk: "u \<le> k"
    using ek k by (simp add: u_def)
  define M where "M = m * 2 ^ nat (k - u)"
  have "pow2 (k - u) = 2 ^ nat (k - u)"
    using uk pow2_nat [of "nat (k - u)"] by simp
  then have xM: "x = of_int M * pow2 u"
    unfolding x M_def by (subst pow2_diff [of k u]) simp
  have "pow2 u \<noteq> 0"
    using pow2_pos [of u] by simp
  then have "x / pow2 u = of_int M"
    unfolding xM by simp
  then have rh: "round_half_even (x / pow2 u) = M"
    by (simp add: round_half_even_of_int)
  from r have nr: "\<not> pow2 (emax + 1) \<le> x" "\<not> x \<le> - pow2 (emax + 1)"
    by linarith+
  have y: "of_int (round_half_even (x / pow2 u)) * pow2 u = x"
    unfolding rh by (rule xM [symmetric])
  have "round_fp p emin emax x =
      (if pow2 (emax + 1) \<le> of_int (round_half_even (x / pow2 u)) * pow2 u then PosInf
       else if of_int (round_half_even (x / pow2 u)) * pow2 u \<le> - pow2 (emax + 1) then NegInf
       else Finite (of_int (round_half_even (x / pow2 u)) * pow2 u))"
    using False by (simp add: round_fp_def Let_def e_def u_def)
  also have "\<dots> = Finite x"
    unfolding y using nr by simp
  finally show ?thesis .
qed

lemma round32_of_int: "\<bar>i\<bar> < 2 ^ 24 \<Longrightarrow> round32 (of_int i) = Finite (of_int i)"
proof -
  assume a: "\<bar>i\<bar> < 2 ^ 24"
  then have "\<bar>of_int i :: rat\<bar> < of_int (2 ^ 24)"
    by (simp only: of_int_abs [symmetric] of_int_less_iff)
  then have "\<bar>of_int i :: rat\<bar> < pow2 (127 + 1)"
    by (simp add: pow2_def)
  with a show ?thesis
    unfolding round32_def
    by (intro round_fp_exact [where m = i and k = 0]) (simp_all add: pow2_def)
qed

lemma round64_of_int: "\<bar>i\<bar> < 2 ^ 24 \<Longrightarrow> round64 (of_int i) = Finite (of_int i)"
proof -
  assume a: "\<bar>i\<bar> < 2 ^ 24"
  then have "\<bar>of_int i :: rat\<bar> < of_int (2 ^ 24)"
    by (simp only: of_int_abs [symmetric] of_int_less_iff)
  then have "\<bar>of_int i :: rat\<bar> < pow2 (1023 + 1)"
    by (simp add: pow2_def)
  moreover from a have "\<bar>i\<bar> < 2 ^ 53"
    by simp
  ultimately show ?thesis
    unfolding round64_def
    by (intro round_fp_exact [where m = i and k = 0]) (simp_all add: pow2_def)
qed

lemma round32_exact_round64:
  assumes "round32 x = Finite x"
  shows "round64 x = Finite x"
proof (cases "x = 0")
  case True
  then show ?thesis by (simp add: round64_def round_fp_def)
next
  case False
  define e where "e = ilog2 \<bar>x\<bar>"
  define u where "u = max e (- 126) - int 24 + 1"
  define m where "m = round_half_even (x / pow2 u)"
  have "round32 x =
      (if pow2 (127 + 1) \<le> of_int m * pow2 u then PosInf
       else if of_int m * pow2 u \<le> - pow2 (127 + 1) then NegInf
       else Finite (of_int m * pow2 u))"
    using False by (simp add: round32_def round_fp_def Let_def e_def u_def m_def)
  with assms have xm: "x = of_int m * pow2 u" and rng: "\<not> pow2 (127 + 1) \<le> x" "\<not> x \<le> - pow2 (127 + 1)"
    by (auto split: if_splits)
  from rng have "\<bar>x\<bar> < pow2 (127 + 1)"
    by linarith
  also have "pow2 (127 + 1) \<le> pow2 (1023 + 1)"
    by (intro pow2_mono) simp
  finally have big: "\<bar>x\<bar> < pow2 (1023 + 1)" .
  have hi: "\<bar>x\<bar> < pow2 (e + 1)"
    using ilog2_bounds [of "\<bar>x\<bar>"] False by (simp add: e_def)
  have "e + 1 \<le> 24 + u"
    by (simp add: u_def)
  then have "pow2 (e + 1) \<le> pow2 (24 + u)"
    by (rule pow2_mono)
  with hi have "\<bar>x\<bar> < pow2 (24 + u)"
    by simp
  also have "pow2 (24 + u) = 2 ^ 24 * pow2 u"
    using pow2_add [of 24 u] pow2_nat [of 24] by simp
  finally have "\<bar>of_int m * pow2 u\<bar> < 2 ^ 24 * pow2 u"
    unfolding xm [symmetric] .
  then have "of_int \<bar>m\<bar> * pow2 u < 2 ^ 24 * pow2 u"
    using pow2_pos [of u] by (simp add: abs_mult)
  then have "(of_int \<bar>m\<bar> :: rat) < 2 ^ 24"
    using pow2_pos [of u] by (simp only: mult_less_cancel_right_pos)
  then have "(of_int \<bar>m\<bar> :: rat) < of_int (2 ^ 24)"
    by simp
  then have "\<bar>m\<bar> < 2 ^ 24"
    by (simp only: of_int_less_iff)
  then have m53: "\<bar>m\<bar> < 2 ^ 53"
    by simp
  have uk: "- 1022 - int 53 + 1 \<le> u"
    by (simp add: u_def)
  show ?thesis
    unfolding round64_def using xm m53 uk big by (rule round_fp_exact)
qed

lemma degrees_agree_when_exact:
  assumes "\<bar>whole\<bar> < 2 ^ 24"
    and "round32 (m / 60) = Finite (m / 60)"
    and "round32 (of_int whole + m / 60) = Finite (of_int whole + m / 60)"
  shows "gll_degrees whole (Finite m) = Finite (of_int whole + m / 60) \<and>
         gga_degrees whole (Finite m) = Finite (of_int whole + m / 60)"
  using assms
  by (simp add: gll_degrees_def gga_degrees_def int_to_double_def int_to_float_def
      round32_of_int round64_of_int round32_exact_round64)

lemma round32_half: "round32 (1 / 2) = Finite (1 / 2)"
proof -
  have "round_fp 24 (- 126) 127 (1 / 2) = Finite (of_int 8388608 * pow2 (- 24))"
    by (rule round_fp_eqI [where e = "(- 1)"]) (simp_all add: pow2_def)
  then show ?thesis
    by (simp add: round32_def pow2_def)
qed

lemma round32_48_5: "round32 (97 / 2) = Finite (97 / 2)"
proof -
  have "round_fp 24 (- 126) 127 (97 / 2) = Finite (of_int 12713984 * pow2 (- 18))"
    by (rule round_fp_eqI [where e = "5"]) (simp_all add: pow2_def)
  then show ?thesis
    by (simp add: round32_def pow2_def)
qed

lemma nmea_GLL_degrees:
  assumes "nmea_GLL g s = Inr (1, g')"
  shows "\<exists>lat_d lat_m lon_d lon_m.
           memcpy_src (tokenize s ! 1) 0 2 = Some lat_d \<and>
           memcpy_src (tokenize s ! 1) 2 6 = Some lat_m \<and>
           memcpy_src (tokenize s ! 3) 0 3 = Some lon_d \<and>
           memcpy_src (tokenize s ! 3) 3 7 = Some lon_m \<and>
           lat g' = gll_degrees (strtol (cstr lat_d) 10) (strtof (cstr lat_m)) \<and>
           lon g' = gll_degrees (strtol (cstr lon_d) 10) (strtof (cstr lon_m))"
  using assms
  by (auto simp: nmea_GLL_def Let_def gll_degrees_def split: if_splits option.splits prod.splits)

lemma nmea_GGA_degrees:
  assumes "nmea_GGA g s = Inr (1, g')"
  shows "\<exists>lat_d lat_m lon_d lon_m.
           memcpy_src (tokenize s ! 2) 0 2 = Some lat_d \<and>
           memcpy_src (tokenize s ! 2) 2 6 = Some lat_m \<and>
           memcpy_src (tokenize s ! 4) 0 3 = Some lon_d \<and>
           memcpy_src (tokenize s ! 4) 3 7 = Some lon_m \<and>
           lat g' = (if first_byte (tokenize s ! 3) = CHR ''S''
                     then fp_neg (gga_degrees (strtol (cstr lat_d) 10) (strtof (cstr lat_m)))
                     else gga_degrees (strtol (cstr lat_d) 10) (strtof (cstr lat_m))) \<and>
           lon g' = (if first_byte (tokenize s ! 5) = CHR ''W''
                     then fp_neg (gga_degrees (strtol (cstr lon_d) 10) (strtof (cstr lon_m)))
                     else gga_degrees (strtol (cstr lon_d) 10) (strtof (cstr lon_m)))"
  using assms
  by (auto simp: nmea_GGA_def Let_def gga_degrees_def split: if_splits option.splits prod.splits)

text \<open>
  Claim C5 fails as stated: for the latitude field \<open>4807.038\<close> and the longitude field
  \<open>01131.000\<close>, northern and eastern, \<open>nmea_GLL\<close> and \<open>nmea_GGA\<close> store different degree
  values. \<open>nmea_GLL\<close> divides and adds in \<open>double\<close>, \<open>nmea_GGA\<close> in \<open>float\<close>.
\<close>

theorem degree_values_differ_counterexample:
  "tokenize gll_sentence ! 1 = ''4807.038'' \<and> tokenize gga_sentence ! 2 = ''4807.038'' \<and>
   first_byte (tokenize gga_sentence ! 3) = CHR ''N'' \<and>
   nmea_GLL gps0 gll_sentence =
     Inr (1, gps0\<lparr>lat := Finite (1692976987172591 / 35184372088832), NS := CHR ''N'',
               lon := Finite (6483306963568777 / 562949953421312), EW := CHR ''E'',
               lastMeasure := ''123519.00'' @ [CHR 0x00]\<rparr>) \<and>
   nmea_GGA gps0 gga_sentence =
     Inr (1, gps0\<lparr>lastMeasure := ''123519.00'' @ [CHR 0x00],
               lat := Finite (12613661 / 262144), lon := Finite (3019025 / 262144),
               altitude := Finite (4467917 / 8192), hdop := Finite (7549747 / 8388608),
               satelliteCount := 8, fix_flag := 1\<rparr>) \<and>
   Finite (1692976987172591 / 35184372088832) \<noteq> Finite (12613661 / 262144) \<and>
   Finite (6483306963568777 / 562949953421312) \<noteq> Finite (3019025 / 262144)"
  by (simp add: nmea_GLL_gll_sentence nmea_GGA_gga_sentence tokenize_gll_sentence
      tokenize_gga_sentence first_byte_def)

text \<open>
  Claim C5, amended. From the whole degrees and the minutes of a raw field, \<open>nmea_GLL\<close>
  stores \<open>gll_degrees\<close>, the quotient by 60 and the sum rounded to \<open>double\<close>, and
  \<open>nmea_GGA\<close> stores \<open>gga_degrees\<close>, both rounded to \<open>float\<close>, negated for the southern
  and the western hemisphere. The two values are the same number, the whole degrees
  plus the minutes over 60, whenever that quotient and that sum are \<open>float\<close> numbers.
\<close>

theorem degree_values_of_both_decoders:
  "(nmea_GLL g s = Inr (1, g') \<longrightarrow>
      (\<exists>lat_d lat_m lon_d lon_m.
           memcpy_src (tokenize s ! 1) 0 2 = Some lat_d \<and>
           memcpy_src (tokenize s ! 1) 2 6 = Some lat_m \<and>
           memcpy_src (tokenize s ! 3) 0 3 = Some lon_d \<and>
           memcpy_src (tokenize s ! 3) 3 7 = Some lon_m \<and>
           lat g' = gll_degrees (strtol (cstr lat_d) 10) (strtof (cstr lat_m)) \<and>
           lon g' = gll_degrees (strtol (cstr lon_d) 10) (strtof (cstr lon_m)))) \<and>
   (nmea_GGA g s = Inr (1, g') \<longrightarrow>
      (\<exists>lat_d lat_m lon_d lon_m.
           memcpy_src (tokenize s ! 2) 0 2 = Some lat_d \<and>
           memcpy_src (tokenize s ! 2) 2 6 = Some lat_m \<and>
           memcpy_src (tokenize s ! 4) 0 3 = Some lon_d \<and>
           memcpy_src (tokenize s ! 4) 3 7 = Some lon_m \<and>
           lat g' = (if first_byte (tokenize s ! 3) = CHR ''S''
                     then fp_neg (gga_degrees (strtol (cstr lat_d) 10) (strtof (cstr lat_m)))
                     else gga_degrees (strtol (cstr lat_d) 10) (strtof (cstr lat_m))) \<and>
           lon g' = (if first_byte (tokenize s ! 5) = CHR ''W''
                     then fp_neg (gga_degrees (strtol (cstr lon_d) 10) (strtof (cstr lon_m)))
                     else gga_degrees (strtol (cstr lon_d) 10) (strtof (cstr lon_m))))) \<and>
   (\<bar>whole\<bar> < 2 ^ 24 \<and> round32 (m / 60) = Finite (m / 60) \<and>
    round32 (of_int whole + m / 60) = Finite (of_int whole + m / 60) \<longrightarrow>
      gll_degrees whole (Finite m) = Finite (of_int whole + m / 60) \<and>
      gga_degrees whole (Finite m) = Finite (of_int whole + m / 60))"
  using nmea_GLL_degrees [of g s g'] nmea_GGA_degrees [of g s g']
    degrees_agree_when_exact [of whole m]
  by blast

theorem degree_values_of_both_decoders_witness:
  "nmea_GLL gps0 gll_sentence =
     Inr (1, gps0\<lparr>lat := Finite (1692976987172591 / 35184372088832), NS := CHR ''N'',
               lon := Finite (6483306963568777 / 562949953421312), EW := CHR ''E'',
               lastMeasure := ''123519.00'' @ [CHR 0x00]\<rparr>) \<and>
   gll_degrees (strtol ''48'' 10) (strtof ''07.038'') = Finite (1692976987172591 / 35184372088832) \<and>
   nmea_GGA gps0 gga_sentence =
     Inr (1, gps0\<lparr>lastMeasure := ''123519.00'' @ [CHR 0x00],
               lat := Finite (12613661 / 262144), lon := Finite (3019025 / 262144),
               altitude := Finite (4467917 / 8192), hdop := Finite (7549747 / 8388608),
               satelliteCount := 8, fix_flag := 1\<rparr>) \<and>
   gga_degrees (strtol ''48'' 10) (strtof ''07.038'') = Finite (12613661 / 262144) \<and>
   \<bar>48 :: int\<bar> < 2 ^ 24 \<and> round32 (30 / 60) = Finite (30 / 60) \<and>
   round32 (of_int 48 + 30 / 60) = Finite (of_int 48 + 30 / 60) \<and>
   gll_degrees 48 (Finite 30) = Finite (97 / 2) \<and>
   gga_degrees 48 (Finite 30) = Finite (97 / 2)"
proof -
  let ?gA = "gps0\<lparr>lat := Finite (1692976987172591 / 35184372088832), NS := CHR ''N'',
               lon := Finite (6483306963568777 / 562949953421312), EW := CHR ''E'',
               lastMeasure := ''123519.00'' @ [CHR 0x00]\<rparr>"
  let ?gB = "gps0\<lparr>lastMeasure := ''123519.00'' @ [CHR 0x00],
               lat := Finite (12613661 / 262144), lon := Finite (3019025 / 262144),
               altitude := Finite (4467917 / 8192), hdop := Finite (7549747 / 8388608),
               satelliteCount := 8, fix_flag := 1\<rparr>"
  have a: "nmea_GLL gps0 gll_sentence = Inr (1, ?gA)"
    by (rule nmea_GLL_gll_sentence)
  have b: "nmea_GGA gps0 gga_sentence = Inr (1, ?gB)"
    by (rule nmea_GGA_gga_sentence)
  from degree_values_of_both_decoders [of gps0 gll_sentence ?gA] a
  obtain lat_d lat_m where
    "memcpy_src (tokenize gll_sentence ! 1) 0 2 = Some lat_d"
    "memcpy_src (tokenize gll_sentence ! 1) 2 6 = Some lat_m"
    "lat ?gA = gll_degrees (strtol (cstr lat_d) 10) (strtof (cstr lat_m))"
    by blast
  then have c: "gll_degrees (strtol ''48'' 10) (strtof ''07.038'') =
      Finite (1692976987172591 / 35184372088832)"
    by (auto simp: tokenize_gll_sentence memcpy_src_def cstr_def NUL_def)
  from degree_values_of_both_decoders [of gps0 gga_sentence ?gB] b
  obtain lat_d' lat_m' where
    "memcpy_src (tokenize gga_sentence ! 2) 0 2 = Some lat_d'"
    "memcpy_src (tokenize gga_sentence ! 2) 2 6 = Some lat_m'"
    "lat ?gB = (if first_byte (tokenize gga_sentence ! 3) = CHR ''S''
                then fp_neg (gga_degrees (strtol (cstr lat_d') 10) (strtof (cstr lat_m')))
                else gga_degrees (strtol (cstr lat_d') 10) (strtof (cstr lat_m')))"
    by blast
  then have d: "gga_degrees (strtol ''48'' 10) (strtof ''07.038'') = Finite (12613661 / 262144)"
    by (auto simp: tokenize_gga_sentence memcpy_src_def cstr_def NUL_def first_byte_def)
  have e: "\<bar>48 :: int\<bar> < 2 ^ 24" "round32 (30 / 60) = Finite (30 / 60)"
    "round32 (of_int 48 + 30 / 60) = Finite (of_int 48 + 30 / 60)"
    by (simp_all add: round32_half round32_48_5)
  with degree_values_of_both_decoders [of _ _ _ 48 30]
  have f: "gll_degrees 48 (Finite 30) = Finite (97 / 2)" "gga_degrees 48 (Finite 30) = Finite (97 / 2)"
    by simp_all
  from a b c d e f show ?thesis
    by blast
qed

end
